theory Spec2Isabelle
  imports Complex_Main "HOL-Library.Multiset" "HOL-Library.Log_Nat"
begin

section \<open>JavaScript numbers\<close>

text \<open>
  Every arithmetic result of the aggregator is a JavaScript \<^verbatim>\<open>number\<close>, an IEEE-754
  binary64 value: a finite value, one of the two infinities, or NaN. Finite values are
  kept as the rational they denote. The sign of zero is not kept: the program never
  divides by a negative zero. Time stamps, counters and status codes are integers far
  below \<open>2^53\<close>, where binary64 arithmetic on integers is exact; they are modelled
  as \<open>int\<close> and enter floating point only where the source divides (\<open>num\<close>
  below). The numbers of requests and of workers come from \<^verbatim>\<open>parseInt\<close>; a
  \<open>NaN\<close> from there is outside the model.
\<close>

datatype number = Fin rat | PInf | NInf | NaN

definition pow2 :: "int \<Rightarrow> rat" where
  "pow2 e = (if 0 \<le> e then 2 ^ nat e else 1 / 2 ^ nat (- e))"

text \<open>The binary exponent of a positive rational: \<open>2^e \<le> x < 2^(e+1)\<close>.\<close>

definition ilog2 :: "rat \<Rightarrow> int" where
  "ilog2 x = (case quotient_of x of (a, b) \<Rightarrow>
     (let e = bitlen a - bitlen b in if pow2 e \<le> x then e else e - 1))"

text \<open>Round to the nearest integer, ties to even.\<close>

definition roundEven :: "rat \<Rightarrow> int" where
  "roundEven y =
     (let f = \<lfloor>y\<rfloor>; r = y - of_int f
      in if r < 1 / 2 then f
         else if 1 / 2 < r then f + 1
         else if even f then f else f + 1)"

text \<open>
  Rounding of an exact result to binary64 (round to nearest, ties to even): 53
  significant bits, the quantum never below \<open>2^-1074\<close> (subnormals), overflow to an
  infinity from \<open>2^1024\<close> on.
\<close>

definition toDouble :: "rat \<Rightarrow> number" where
  "toDouble x =
     (if x = 0 then Fin 0
      else let q = pow2 (max (ilog2 \<bar>x\<bar> - 52) (- 1074));
               r = of_int (roundEven (x / q)) * q
           in if pow2 1024 \<le> \<bar>r\<bar> then (if 0 < x then PInf else NInf) else Fin r)"

text \<open>The largest relative error of one rounding in the normal range.\<close>

definition unitRoundoff :: rat where
  "unitRoundoff = 1 / 2 ^ 53"

text \<open>The operator \<^verbatim>\<open>+\<close> on numbers.\<close>

fun js_add :: "number \<Rightarrow> number \<Rightarrow> number" where
  "js_add NaN _ = NaN"
| "js_add _ NaN = NaN"
| "js_add PInf NInf = NaN"
| "js_add NInf PInf = NaN"
| "js_add PInf _ = PInf"
| "js_add _ PInf = PInf"
| "js_add NInf _ = NInf"
| "js_add _ NInf = NInf"
| "js_add (Fin a) (Fin b) = toDouble (a + b)"

text \<open>The operator \<^verbatim>\<open>/\<close> on numbers; a zero divisor is the positive zero.\<close>

fun js_div :: "number \<Rightarrow> number \<Rightarrow> number" where
  "js_div NaN _ = NaN"
| "js_div _ NaN = NaN"
| "js_div (Fin a) (Fin b) =
     (if b = 0 then (if a = 0 then NaN else if 0 < a then PInf else NInf)
      else toDouble (a / b))"
| "js_div (Fin a) PInf = Fin 0"
| "js_div (Fin a) NInf = Fin 0"
| "js_div PInf (Fin b) = (if 0 \<le> b then PInf else NInf)"
| "js_div NInf (Fin b) = (if 0 \<le> b then NInf else PInf)"
| "js_div PInf _ = NaN"
| "js_div NInf _ = NaN"

text \<open>The comparison \<^verbatim>\<open><=\<close> on numbers: false as soon as one side is NaN.\<close>

fun js_le :: "number \<Rightarrow> number \<Rightarrow> bool" where
  "js_le NaN _ = False"
| "js_le _ NaN = False"
| "js_le NInf _ = True"
| "js_le _ PInf = True"
| "js_le (Fin a) (Fin b) = (a \<le> b)"
| "js_le PInf _ = False"
| "js_le _ NInf = False"

text \<open>\<^verbatim>\<open>Math.min\<close> and \<^verbatim>\<open>Math.max\<close> of two arguments.\<close>

definition js_min2 :: "number \<Rightarrow> number \<Rightarrow> number" where
  "js_min2 a b = (if a = NaN \<or> b = NaN then NaN else if js_le a b then a else b)"

definition js_max2 :: "number \<Rightarrow> number \<Rightarrow> number" where
  "js_max2 a b = (if a = NaN \<or> b = NaN then NaN else if js_le a b then b else a)"

text \<open>
  \<^verbatim>\<open>Math.min(...values)\<close> and \<^verbatim>\<open>Math.max(...values)\<close>: with no argument they are
  \<open>Infinity\<close> and \<open>-Infinity\<close>. This is the value of the call when the engine
  accepts its arguments; the limit on their number is with the caller, \<^verbatim>\<open>calcStats\<close>.
\<close>

definition Math_min :: "number list \<Rightarrow> number" where
  "Math_min values = foldl js_min2 PInf values"

definition Math_max :: "number list \<Rightarrow> number" where
  "Math_max values = foldl js_max2 NInf values"

text \<open>An integer as a number, and \<^verbatim>\<open>Number.isFinite\<close>.\<close>

definition num :: "int \<Rightarrow> number" where
  "num i = Fin (of_int i)"



section \<open>The transport, as one request sees it\<close>

text \<open>
  What the HTTP library does with one request, together with the values that
  \<^verbatim>\<open>Date.now()\<close> returns inside the callbacks. Either the response callback is
  invoked with \<^verbatim>\<open>res.statusCode\<close>, followed by the \<^verbatim>\<open>'data'\<close> events (the clock
  at each of them) and by one terminal event; or the request itself emits
  \<^verbatim>\<open>'error'\<close> before any response (connection refused, DNS or TLS failure); or
  nothing ever happens. The terminal event is the first of: \<^verbatim>\<open>'end'\<close> of the
  response stream, \<^verbatim>\<open>'error'\<close> of the response stream, and \<^verbatim>\<open>'error'\<close> of the
  request once the response has begun (the socket fails in the middle of the body);
  what is emitted after it finds the promise settled, or the process gone. The URL
  is taken to be well formed, and of a scheme the revision can fetch (the script
  compares the protocol with \<^verbatim>\<open>'https: '\<close>, so it fetches http URLs only).
\<close>

datatype terminal =
    End int
  | StreamError string int
  | LateRequestError string
  | NeverEnds

datatype exchange =
    Response "int option" "int list" terminal
  | RequestError string
  | NoResponse

section \<open>The prober of src/index.ts\<close>

record RequestStat =
  statusCode :: "int option"
  error :: "string option"
  totalTime :: int
  timeToFirstByte :: "int option"
  timeToLastByte :: "int option"

text \<open>
  How the promise returned by \<^verbatim>\<open>makeRequest\<close> settles: \<^verbatim>\<open>resolve(stat)\<close>,
  \<^verbatim>\<open>reject(error)\<close>, or neither is ever called.
\<close>

datatype outcome = Resolved RequestStat | Rejected string | Unsettled

text \<open>The \<^verbatim>\<open>'data'\<close> handler: only the first chunk sets \<^verbatim>\<open>firstByteTime\<close>.\<close>

definition onData :: "int option \<Rightarrow> int \<Rightarrow> int option" where
  "onData firstByteTime now = (if firstByteTime = None then Some now else firstByteTime)"

text \<open>\<^verbatim>\<open>firstByteTime ? f(firstByteTime) : undefined\<close>: \<^verbatim>\<open>null\<close> and \<open>0\<close> are falsy.\<close>

definition whenTruthy :: "int option \<Rightarrow> (int \<Rightarrow> int) \<Rightarrow> int option" where
  "whenTruthy firstByteTime f =
     (case firstByteTime of None \<Rightarrow> None | Some t \<Rightarrow> if t = 0 then None else Some (f t))"

text \<open>\<^verbatim>\<open>res.statusCode || 0\<close>.\<close>

definition orZero :: "int option \<Rightarrow> int" where
  "orZero status = (case status of None \<Rightarrow> 0 | Some c \<Rightarrow> if c = 0 then 0 else c)"

text \<open>
  \<^verbatim>\<open>makeRequest\<close> of src/index.ts, given the clock at the call. Handlers exist for
  the \<^verbatim>\<open>'end'\<close> and \<^verbatim>\<open>'error'\<close> events of the response only: when the request
  emits \<^verbatim>\<open>'error'\<close>, before or after the response began, no handler of
  \<^verbatim>\<open>makeRequest\<close> runs, neither \<^verbatim>\<open>resolve\<close> nor \<^verbatim>\<open>reject\<close> is called and the
  promise stays pending. (Node raises an \<^verbatim>\<open>'error'\<close> event without listener as an
  uncaught exception; with or without it, the caller never gets an outcome.)
\<close>

fun makeRequest :: "int \<Rightarrow> exchange \<Rightarrow> outcome" where
  "makeRequest startTime (Response status dataTimes (End endTime)) =
     (let firstByteTime = foldl onData None dataTimes;
          totalTime = endTime - startTime
      in Resolved \<lparr>statusCode = Some (orZero status), error = None, totalTime = totalTime,
           timeToFirstByte = whenTruthy firstByteTime (\<lambda>t. t - startTime),
           timeToLastByte = whenTruthy firstByteTime (\<lambda>t. endTime - t)\<rparr>)"
| "makeRequest startTime (Response status dataTimes (StreamError message endTime)) =
     Resolved \<lparr>statusCode = None, error = Some message, totalTime = endTime - startTime,
       timeToFirstByte = None, timeToLastByte = None\<rparr>"
| "makeRequest startTime (Response status dataTimes (LateRequestError message)) = Unsettled"
| "makeRequest startTime (Response status dataTimes NeverEnds) = Unsettled"
| "makeRequest startTime (RequestError message) = Unsettled"
| "makeRequest startTime NoResponse = Unsettled"

section \<open>The probers of the other revisions\<close>

text \<open>
  \<^verbatim>\<open>makeRequest\<close> of the command-line script (src/unnamed/part_000, and the same
  text in the first file of src/unnamed/part_001): \<^verbatim>\<open>timeToLastByte\<close> is
  \<^verbatim>\<open>endTime - startTime\<close>, whether or not a chunk arrived.
\<close>

fun makeRequest_cli :: "int \<Rightarrow> exchange \<Rightarrow> outcome" where
  "makeRequest_cli startTime (Response status dataTimes (End endTime)) =
     (let firstByteTime = foldl onData None dataTimes;
          totalTime = endTime - startTime
      in Resolved \<lparr>statusCode = Some (orZero status), error = None, totalTime = totalTime,
           timeToFirstByte = whenTruthy firstByteTime (\<lambda>t. t - startTime),
           timeToLastByte = Some (endTime - startTime)\<rparr>)"
| "makeRequest_cli startTime (Response status dataTimes (StreamError message endTime)) =
     Resolved \<lparr>statusCode = None, error = Some message, totalTime = endTime - startTime,
       timeToFirstByte = None, timeToLastByte = None\<rparr>"
| "makeRequest_cli startTime (Response status dataTimes (LateRequestError message)) = Unsettled"
| "makeRequest_cli startTime (Response status dataTimes NeverEnds) = Unsettled"
| "makeRequest_cli startTime (RequestError message) = Unsettled"
| "makeRequest_cli startTime NoResponse = Unsettled"

text \<open>
  \<^verbatim>\<open>makeRequest\<close> of the revision with HTTP method and body (second file of
  src/unnamed/part_001). The method and the body are part of what is sent, so they
  are behind the exchange here. A stream error keeps the status of the response; an
  \<^verbatim>\<open>'error'\<close> of the request rejects the promise, also when the response has
  begun: the handler is on the request for as long as the promise is pending.
\<close>

fun makeRequest_body :: "int \<Rightarrow> exchange \<Rightarrow> outcome" where
  "makeRequest_body startTime (Response status dataTimes (End endTime)) =
     (let firstByteTime = foldl onData None dataTimes;
          totalTime = endTime - startTime
      in Resolved \<lparr>statusCode = Some (orZero status), error = None, totalTime = totalTime,
           timeToFirstByte = whenTruthy firstByteTime (\<lambda>t. t - startTime),
           timeToLastByte = whenTruthy firstByteTime (\<lambda>t. endTime - t)\<rparr>)"
| "makeRequest_body startTime (Response status dataTimes (StreamError message endTime)) =
     (let totalTime = endTime - startTime
      in Resolved \<lparr>statusCode = Some (orZero status), error = Some message,
           totalTime = totalTime, timeToFirstByte = None, timeToLastByte = None\<rparr>)"
| "makeRequest_body startTime (Response status dataTimes (LateRequestError message)) =
     Rejected message"
| "makeRequest_body startTime (Response status dataTimes NeverEnds) = Unsettled"
| "makeRequest_body startTime (RequestError message) = Rejected message"
| "makeRequest_body startTime NoResponse = Unsettled"

section \<open>The worker pool\<close>

text \<open>
  JavaScript runs the workers on one thread; a worker gives up control only at its
  \<^verbatim>\<open>await\<close>. Between two awaits the test \<^verbatim>\<open>requestSent < numRequests\<close>, the
  increment and the call of \<^verbatim>\<open>makeRequest\<close> run without interruption. The state
  of a run is the counter, the shared array \<^verbatim>\<open>stats\<close>, and the workers suspended at
  their await, each with the number of the call it waits for. The log \<open>issued\<close>
  records every call of \<^verbatim>\<open>makeRequest\<close> in order: which worker made it and its
  number, counted from 0.
\<close>

record pool =
  requestSent :: int
  stats :: "RequestStat list"
  awaiting :: "(nat \<times> nat) list"
  issued :: "(nat \<times> nat) list"

definition newPool :: pool where
  "newPool = \<lparr>requestSent = 0, stats = [], awaiting = [], issued = []\<rparr>"

text \<open>
  Worker \<open>w\<close> at the head of its \<^verbatim>\<open>while\<close> loop: it claims a unit of work and
  suspends on the request, or leaves the loop and is finished.
\<close>

definition worker :: "int \<Rightarrow> nat \<Rightarrow> pool \<Rightarrow> pool" where
  "worker numRequests w st =
     (if requestSent st < numRequests
      then st\<lparr>requestSent := requestSent st + 1,
              awaiting := awaiting st @ [(w, length (issued st))],
              issued := issued st @ [(w, length (issued st))]\<rparr>
      else st)"

text \<open>The \<^verbatim>\<open>for\<close> loop that starts the workers, each running up to its first await.\<close>

definition launch :: "int \<Rightarrow> int \<Rightarrow> pool" where
  "launch numRequests concurrency =
     foldl (\<lambda>st w. worker numRequests w st) newPool [0..<nat concurrency]"

text \<open>
  How a run ends without a result: the promise of \<^verbatim>\<open>runLoadTest\<close> is rejected with
  the error of a request, or with the \<^verbatim>\<open>RangeError\<close> that the engine throws at a
  call with more arguments than it accepts, or it is never settled.
\<close>

datatype run_error = RunRejected string | RangeError | NeverCompletes

text \<open>
  \<^verbatim>\<open>await Promise.all(workers)\<close>. The pending requests settle in an order the program
  does not control: the schedule picks, at each step, which of the requests that
  will settle does so next (an exhausted schedule picks the first). The worker of a
  resolved request pushes the outcome and is back at the head of its loop. A rejected
  request rejects its worker and with it \<^verbatim>\<open>Promise.all\<close>. When every worker has left
  its loop the join returns; when the only requests left never settle, it never does.
\<close>

definition pick :: "nat list \<Rightarrow> nat" where
  "pick sched = (case sched of [] \<Rightarrow> 0 | i # _ \<Rightarrow> i)"

definition settles :: "(nat \<Rightarrow> outcome) \<Rightarrow> nat \<times> nat \<Rightarrow> bool" where
  "settles probe wk = (probe (snd wk) \<noteq> Unsettled)"

function joinAll :: "(nat \<Rightarrow> outcome) \<Rightarrow> int \<Rightarrow> nat list \<Rightarrow> pool \<Rightarrow> run_error + pool" where
  "joinAll probe numRequests sched st =
     (if awaiting st = [] then Inr st
      else case filter (settles probe) (awaiting st) of
        [] \<Rightarrow> Inl NeverCompletes
      | r # rs \<Rightarrow>
          (let wk = (r # rs) ! (pick sched mod length (r # rs))
           in case probe (snd wk) of
                Resolved stat \<Rightarrow>
                  joinAll probe numRequests (tl sched)
                    (worker numRequests (fst wk)
                       (st\<lparr>stats := stats st @ [stat],
                           awaiting := remove1 wk (awaiting st)\<rparr>))
              | Rejected message \<Rightarrow> Inl (RunRejected message)
              | Unsettled \<Rightarrow> Inl NeverCompletes))"
  by pat_completeness auto


lemma picked_awaiting:
  assumes "filter (settles probe) (awaiting st) = r # rs"
  shows "(r # rs) ! (i mod length (r # rs)) \<in> set (awaiting st)"
proof -
  have "(r # rs) ! (i mod length (r # rs)) \<in> set (r # rs)"
    by (rule nth_mem) simp
  also have "set (r # rs) \<subseteq> set (awaiting st)"
    unfolding assms [symmetric] by simp
  finally show ?thesis .
qed

lemma worker_measure:
  assumes "wk \<in> set (awaiting st)"
  shows "nat (numRequests - requestSent (worker numRequests w
            (st\<lparr>stats := ss, awaiting := remove1 wk (awaiting st)\<rparr>)))
         + length (awaiting (worker numRequests w
            (st\<lparr>stats := ss, awaiting := remove1 wk (awaiting st)\<rparr>)))
         < nat (numRequests - requestSent st) + length (awaiting st)"
proof -
  from assms have "0 < length (awaiting st)"
    by (cases "awaiting st") auto
  with assms show ?thesis
    by (auto simp: worker_def length_remove1)
qed

termination joinAll
proof (relation "measure (\<lambda>(probe, numRequests, sched, st).
          nat (numRequests - requestSent st) + length (awaiting st))", goal_cases)
  case 1
  show ?case by simp
next
  case (2 probe numRequests sched st r rs wk stat)
  from 2(2) have "(r # rs) ! (pick sched mod length (r # rs)) \<in> set (awaiting st)"
    by (rule picked_awaiting)
  with 2(3) have "wk \<in> set (awaiting st)" by simp
  from worker_measure [OF this] show ?case by simp
qed

declare joinAll.simps [simp del]

text \<open>The dispatch of \<^verbatim>\<open>runLoadTest\<close>: start the workers, then join them.\<close>

definition dispatch :: "(nat \<Rightarrow> outcome) \<Rightarrow> int \<Rightarrow> int \<Rightarrow> nat list \<Rightarrow> run_error + pool" where
  "dispatch probe numRequests concurrency sched =
     joinAll probe numRequests sched (launch numRequests concurrency)"


section \<open>The aggregator\<close>

text \<open>The result of \<^verbatim>\<open>calcStats\<close>: the fields \<^verbatim>\<open>min\<close>, \<^verbatim>\<open>max\<close> and \<^verbatim>\<open>avg\<close>.\<close>

record min_max_avg =
  min_of :: number
  max_of :: number
  avg :: number

text \<open>
  \<^verbatim>\<open>calcStats\<close>. It spreads the array into the arguments of \<^verbatim>\<open>Math.min\<close> and of
  \<^verbatim>\<open>Math.max\<close>, and an engine accepts only so many arguments in a call: beyond
  that the call throws \<^verbatim>\<open>RangeError\<close>, at \<^verbatim>\<open>Math.min\<close> already. The number of
  arguments the engine accepts is not in the program (it depends on the engine and
  on its stack), so it is a parameter, \<open>maxArgs\<close>.
\<close>

definition calcStats :: "nat \<Rightarrow> number list \<Rightarrow> run_error + min_max_avg" where
  "calcStats maxArgs values =
     (if maxArgs < length values then Inl RangeError
      else let mn = Math_min values;
               mx = Math_max values;
               total = foldl js_add (Fin 0) values
           in Inr \<lparr>min_of = mn, max_of = mx,
                avg = js_div total (num (int (length values)))\<rparr>)"

text \<open>
  The interface \<^verbatim>\<open>Summary\<close>; its three groups are the fields \<^verbatim>\<open>totalTime\<close>,
  \<^verbatim>\<open>timeToFirstByte\<close> and \<^verbatim>\<open>timeToLastByte\<close> of the source.
\<close>

record Summary =
  successCount :: int
  failedCount :: int
  requestsPerSecond :: number
  totalTimeStats :: min_max_avg
  timeToFirstByteStats :: min_max_avg
  timeToLastByteStats :: min_max_avg

text \<open>\<^verbatim>\<open>s.statusCode !== undefined && s.statusCode >= 200 && s.statusCode < 300\<close>.\<close>

definition isSuccess :: "RequestStat \<Rightarrow> bool" where
  "isSuccess s = (case statusCode s of None \<Rightarrow> False | Some c \<Rightarrow> 200 \<le> c \<and> c < 300)"

text \<open>Milliseconds to seconds: \<^verbatim>\<open>t / 1000\<close>.\<close>

definition seconds :: "int \<Rightarrow> number" where
  "seconds t = js_div (num t) (num 1000)"

definition totalTimes :: "RequestStat list \<Rightarrow> number list" where
  "totalTimes sts = map (\<lambda>s. seconds (totalTime s)) sts"

definition ttfbTimes :: "RequestStat list \<Rightarrow> number list" where
  "ttfbTimes sts =
     map (\<lambda>s. seconds (the (timeToFirstByte s))) (filter (\<lambda>s. timeToFirstByte s \<noteq> None) sts)"

definition ttlbTimes :: "RequestStat list \<Rightarrow> number list" where
  "ttlbTimes sts =
     map (\<lambda>s. seconds (the (timeToLastByte s))) (filter (\<lambda>s. timeToLastByte s \<noteq> None) sts)"

text \<open>
  What \<^verbatim>\<open>runLoadTest\<close> of src/index.ts computes after the join, from the array
  \<^verbatim>\<open>stats\<close> and the two readings of the clock. The three calls of \<^verbatim>\<open>calcStats\<close>
  are evaluated in the order of the fields; what one of them throws rejects the
  promise of \<^verbatim>\<open>runLoadTest\<close>.
\<close>

definition summarize ::
  "nat \<Rightarrow> RequestStat list \<Rightarrow> int \<Rightarrow> int \<Rightarrow> int \<Rightarrow> run_error + Summary" where
  "summarize maxArgs sts numRequests testStartTime testEndTime =
     (let totalTestTimeSeconds = js_div (num (testEndTime - testStartTime)) (num 1000);
          rate = js_div (num numRequests) totalTestTimeSeconds;
          successes = int (length (filter isSuccess sts));
          failures = int (length sts) - successes
      in case calcStats maxArgs (totalTimes sts) of
           Inl e \<Rightarrow> Inl e
         | Inr ofTotal \<Rightarrow>
         (case calcStats maxArgs (ttfbTimes sts) of
           Inl e \<Rightarrow> Inl e
         | Inr ofFirst \<Rightarrow>
         (case calcStats maxArgs (ttlbTimes sts) of
           Inl e \<Rightarrow> Inl e
         | Inr ofLast \<Rightarrow>
             Inr \<lparr>successCount = successes, failedCount = failures,
               requestsPerSecond = rate, totalTimeStats = ofTotal,
               timeToFirstByteStats = ofFirst, timeToLastByteStats = ofLast\<rparr>)))"

section \<open>A run\<close>

text \<open>
  Everything a run takes from outside: the clock read before the workers start and
  after the join, the clock at the \<open>k\<close>-th call of \<^verbatim>\<open>makeRequest\<close>, what the
  transport does with that request, and the order in which requests settle.
\<close>

record run_env =
  clockAtStart :: int
  clockAtEnd :: int
  startTimes :: "nat \<Rightarrow> int"
  transport :: "nat \<Rightarrow> exchange"
  schedule :: "nat list"

definition runLoadTest :: "nat \<Rightarrow> run_env \<Rightarrow> int \<Rightarrow> int \<Rightarrow> run_error + Summary" where
  "runLoadTest maxArgs env numRequests concurrency =
     (case dispatch (\<lambda>k. makeRequest (startTimes env k) (transport env k))
             numRequests concurrency (schedule env) of
        Inl e \<Rightarrow> Inl e
      | Inr st \<Rightarrow>
          summarize maxArgs (stats st) numRequests (clockAtStart env) (clockAtEnd env))"


text \<open>
  The command-line script (first file of src/unnamed/part_001). Its worker loop
  leaves on \<^verbatim>\<open>requestsSent >= numRequests\<close>, the same test on integers, and also
  tallies the statuses in an object that nothing reads. After the join it subtracts
  the end time from the start time, and prints the summary instead of returning it.
\<close>

definition summarize_cli ::
  "nat \<Rightarrow> RequestStat list \<Rightarrow> int \<Rightarrow> int \<Rightarrow> int \<Rightarrow> run_error + Summary" where
  "summarize_cli maxArgs sts numRequests testStartTime totalEndTime =
     (let totalTestTimeSeconds = js_div (num (testStartTime - totalEndTime)) (num 1000);
          rate = js_div (num numRequests) totalTestTimeSeconds;
          successes = int (length (filter isSuccess sts));
          failures = int (length sts) - successes
      in case calcStats maxArgs (totalTimes sts) of
           Inl e \<Rightarrow> Inl e
         | Inr ofTotal \<Rightarrow>
         (case calcStats maxArgs (ttfbTimes sts) of
           Inl e \<Rightarrow> Inl e
         | Inr ofFirst \<Rightarrow>
         (case calcStats maxArgs (ttlbTimes sts) of
           Inl e \<Rightarrow> Inl e
         | Inr ofLast \<Rightarrow>
             Inr \<lparr>successCount = successes, failedCount = failures,
               requestsPerSecond = rate, totalTimeStats = ofTotal,
               timeToFirstByteStats = ofFirst, timeToLastByteStats = ofLast\<rparr>)))"

definition runLoadTest_cli :: "nat \<Rightarrow> run_env \<Rightarrow> int \<Rightarrow> int \<Rightarrow> run_error + Summary" where
  "runLoadTest_cli maxArgs env numRequests concurrency =
     (case dispatch (\<lambda>k. makeRequest_cli (startTimes env k) (transport env k))
             numRequests concurrency (schedule env) of
        Inl e \<Rightarrow> Inl e
      | Inr st \<Rightarrow>
          summarize_cli maxArgs (stats st) numRequests (clockAtStart env) (clockAtEnd env))"

text \<open>
  The last statement of the script: one request with one worker does not go through
  \<^verbatim>\<open>runLoadTest\<close>; the prober is called directly and its outcome is printed.
  (src/unnamed/part_000 ends with the same statement; its \<^verbatim>\<open>runLoadTest\<close> prints
  the outcomes one by one and no summary.)
\<close>

datatype printed = Statistics RequestStat | Failure string | Results Summary

definition main_cli :: "nat \<Rightarrow> run_env \<Rightarrow> int \<Rightarrow> int \<Rightarrow> run_error + printed" where
  "main_cli maxArgs env numRequests concurrency =
     (if numRequests = 1 \<and> concurrency = 1
      then case makeRequest_cli (startTimes env 0) (transport env 0) of
             Resolved stat \<Rightarrow> Inr (Statistics stat)
           | Rejected err \<Rightarrow> Inr (Failure err)
           | Unsettled \<Rightarrow> Inl NeverCompletes
      else case runLoadTest_cli maxArgs env numRequests concurrency of
             Inl e \<Rightarrow> Inl e
           | Inr summary \<Rightarrow> Inr (Results summary))"


section \<open>Example runs\<close>

text \<open>
  Three requests: the first answers 200 with two chunks, the second answers 500 with
  an empty body, the stream of the third fails after a chunk. The second request
  settles first.
\<close>

definition mixed :: run_env where
  "mixed = \<lparr>clockAtStart = 1000, clockAtEnd = 3000,
     startTimes = (\<lambda>k. 1000 + 100 * int k),
     transport = (\<lambda>k.
       if k = 1 then Response (Some 500) [] (End 1400)
       else if k = 2 then Response (Some 200) [1350] (StreamError ''aborted'' 1500)
       else Response (Some 200) [1100 + 100 * int k, 1150 + 100 * int k]
              (End (1250 + 100 * int k))),
     schedule = [1, 0]\<rparr>"

text \<open>The pool in which that run, with three requests and five workers, ends.\<close>

definition mixed_pool :: pool where
  "mixed_pool = \<lparr>requestSent = 3,
     stats =
       [\<lparr>statusCode = Some 500, error = None, totalTime = 300,
          timeToFirstByte = None, timeToLastByte = None\<rparr>,
        \<lparr>statusCode = Some 200, error = None, totalTime = 250,
          timeToFirstByte = Some 100, timeToLastByte = Some 150\<rparr>,
        \<lparr>statusCode = None, error = Some ''aborted'', totalTime = 300,
          timeToFirstByte = None, timeToLastByte = None\<rparr>],
     awaiting = [], issued = [(0, 0), (1, 1), (2, 2)]\<rparr>"



text \<open>One worker, three requests, each answered after exactly 100 ms.\<close>

definition steady :: run_env where
  "steady = \<lparr>clockAtStart = 1000, clockAtEnd = 1300,
     startTimes = (\<lambda>k. 1000 + 100 * int k),
     transport = (\<lambda>k. Response (Some 200) [] (End (1100 + 100 * int k))),
     schedule = []\<rparr>"

text \<open>The outcomes of that run.\<close>

definition steady_stats :: "RequestStat list" where
  "steady_stats =
     [\<lparr>statusCode = Some 200, error = None, totalTime = 100,
        timeToFirstByte = None, timeToLastByte = None\<rparr>,
      \<lparr>statusCode = Some 200, error = None, totalTime = 100,
        timeToFirstByte = None, timeToLastByte = None\<rparr>,
      \<lparr>statusCode = Some 200, error = None, totalTime = 100,
        timeToFirstByte = None, timeToLastByte = None\<rparr>]"

section \<open>The invariant of the worker pool\<close>

text \<open>
  The counter equals the number of calls made and never passes the total; the calls
  are numbered in order; every call made is either still awaited or its outcome is in
  \<^verbatim>\<open>stats\<close>, once; and only workers with an index below the total ever made one.
\<close>

definition pool_inv :: "(nat \<Rightarrow> outcome) \<Rightarrow> int \<Rightarrow> pool \<Rightarrow> bool" where
  "pool_inv probe numRequests st \<longleftrightarrow>
     requestSent st = int (length (issued st)) \<and>
     requestSent st \<le> max numRequests 0 \<and>
     map snd (issued st) = [0..<length (issued st)] \<and>
     mset (map Resolved (stats st)) + mset (map (\<lambda>wk. probe (snd wk)) (awaiting st)) =
       mset (map (\<lambda>wk. probe (snd wk)) (issued st)) \<and>
     set (awaiting st) \<subseteq> set (issued st) \<and>
     (\<forall>wk \<in> set (issued st). int (fst wk) < numRequests)"

definition started :: "int \<Rightarrow> pool \<Rightarrow> bool" where
  "started numRequests st \<longleftrightarrow> (awaiting st = [] \<longrightarrow> numRequests \<le> requestSent st)"

section \<open>Facts about rounding\<close>

lemma pow2_powi: "pow2 e = 2 powi e"
  by (simp add: pow2_def power_int_def field_simps)

lemma pow2_pos: "0 < pow2 e"
  by (simp add: pow2_powi)

lemma pow2_add: "pow2 (a + b) = pow2 a * pow2 b"
  by (simp add: pow2_powi power_int_add)

lemma pow2_le: "a \<le> b \<Longrightarrow> pow2 a \<le> pow2 b"
  by (simp add: pow2_powi power_int_increasing)

lemma pow2_less: "a < b \<Longrightarrow> pow2 a < pow2 b"
  by (simp add: pow2_powi power_int_strict_increasing)

lemma pow2_nat: "0 \<le> e \<Longrightarrow> pow2 e = of_int (2 ^ nat e)"
  by (simp add: pow2_def)

lemma bitlen_rat_bounds:
  assumes "0 < a"
  shows "pow2 (bitlen a - 1) \<le> of_int a" and "of_int a < pow2 (bitlen a)"
proof -
  from bitlen_bounds [OF assms]
  have lo: "2 ^ nat (bitlen a - 1) \<le> a" and hi: "a < 2 ^ nat (bitlen a)" by simp_all
  have pos: "1 \<le> bitlen a"
  proof (rule ccontr)
    assume "\<not> 1 \<le> bitlen a"
    then have "nat (bitlen a) = 0" by simp
    with hi assms show False by simp
  qed
  have "pow2 (bitlen a - 1) = of_int (2 ^ nat (bitlen a - 1))"
    using pos by (simp add: pow2_nat)
  also have "\<dots> \<le> of_int a" using lo by (simp only: of_int_le_iff)
  finally show "pow2 (bitlen a - 1) \<le> of_int a" .
  have "(of_int a :: rat) < of_int (2 ^ nat (bitlen a))" using hi by (simp only: of_int_less_iff)
  also have "\<dots> = pow2 (bitlen a)" using pos by (simp add: pow2_nat)
  finally show "of_int a < pow2 (bitlen a)" .
qed

lemma ilog2_bounds:
  assumes "0 < x"
  shows "pow2 (ilog2 x) \<le> x \<and> x < pow2 (ilog2 x + 1)"
proof -
  obtain a b where q: "quotient_of x = (a, b)" by (cases "quotient_of x")
  have b: "0 < b" using q by (rule quotient_of_denom_pos)
  have x: "x = of_int a / of_int b" using q by (rule quotient_of_div)
  have a: "0 < a" using assms b x by (simp add: zero_less_divide_iff)
  define e where "e = bitlen a - bitlen b"
  have rb: "0 < (of_int b :: rat)" using b by simp
  have up: "x < pow2 (e + 1)"
  proof -
    have "of_int a < pow2 (bitlen a)" using a by (rule bitlen_rat_bounds)
    also have "pow2 (bitlen a) = pow2 (e + 1) * pow2 (bitlen b - 1)"
      unfolding e_def pow2_add [symmetric] by simp
    also have "\<dots> \<le> pow2 (e + 1) * of_int b"
      using bitlen_rat_bounds(1) [OF b] pow2_pos [of "e + 1"] by simp
    finally show ?thesis using rb by (simp add: x pos_divide_less_eq)
  qed
  have lo: "pow2 (e - 1) < x"
  proof -
    have "pow2 (e - 1) * of_int b < pow2 (e - 1) * pow2 (bitlen b)"
      using bitlen_rat_bounds(2) [OF b] pow2_pos [of "e - 1"] by simp
    also have "\<dots> = pow2 (bitlen a - 1)"
      unfolding e_def pow2_add [symmetric] by simp
    also have "\<dots> \<le> of_int a" using a by (rule bitlen_rat_bounds)
    finally show ?thesis using rb by (simp add: x pos_less_divide_eq)
  qed
  show ?thesis
  proof (cases "pow2 e \<le> x")
    case True
    then have "ilog2 x = e" by (simp add: ilog2_def q e_def)
    with True up show ?thesis by simp
  next
    case False
    then have "ilog2 x = e - 1" by (simp add: ilog2_def q e_def)
    with False lo show ?thesis by simp
  qed
qed

lemma ilog2_unique:
  assumes "pow2 e \<le> x" and "x < pow2 (e + 1)"
  shows "ilog2 x = e"
proof -
  have "0 < x" using pow2_pos [of e] assms(1) by simp
  from ilog2_bounds [OF this]
  have lo: "pow2 (ilog2 x) \<le> x" and hi: "x < pow2 (ilog2 x + 1)" by simp_all
  have "\<not> e + 1 \<le> ilog2 x"
  proof
    assume "e + 1 \<le> ilog2 x"
    then have "pow2 (e + 1) \<le> pow2 (ilog2 x)" by (rule pow2_le)
    with lo assms(2) show False by simp
  qed
  moreover have "\<not> ilog2 x + 1 \<le> e"
  proof
    assume "ilog2 x + 1 \<le> e"
    then have "pow2 (ilog2 x + 1) \<le> pow2 e" by (rule pow2_le)
    with hi assms(1) show False by simp
  qed
  ultimately show ?thesis by simp
qed

lemma roundEven_between: "\<lfloor>y\<rfloor> \<le> roundEven y \<and> roundEven y \<le> \<lceil>y\<rceil>"
proof -
  have "y - of_int \<lfloor>y\<rfloor> \<noteq> 0 \<Longrightarrow> \<lfloor>y\<rfloor> + 1 \<le> \<lceil>y\<rceil>"
    by (metis ceiling_altdef eq_iff_diff_eq_0 order_refl)
  then show ?thesis
    by (auto simp: roundEven_def Let_def)
qed

lemma roundEven_ge: "of_int a \<le> y \<Longrightarrow> a \<le> roundEven y"
  using roundEven_between [of y] le_floor_iff [of a y] by linarith

lemma roundEven_le: "y \<le> of_int b \<Longrightarrow> roundEven y \<le> b"
  using roundEven_between [of y] ceiling_le_iff [of y b] by linarith

lemma toDouble_binade:
  assumes lo: "pow2 e \<le> x" and hi: "x < pow2 (e + 1)"
    and e: "- 1022 \<le> e" "e \<le> 1022"
  defines "r \<equiv> of_int (roundEven (x / pow2 (e - 52))) * pow2 (e - 52)"
  shows "toDouble x = Fin r" and "pow2 e \<le> r" and "r \<le> pow2 (e + 1)"
proof -
  let ?q = "pow2 (e - 52)"
  have q: "0 < ?q" by (rule pow2_pos)
  have x: "0 < x" using pow2_pos [of e] lo by simp
  have il: "ilog2 \<bar>x\<bar> = e" using x lo hi by (simp add: ilog2_unique)
  have p52: "pow2 52 = of_int (2 ^ 52)" and p53: "pow2 53 = of_int (2 ^ 53)"
    by (simp_all add: pow2_def)
  have "pow2 e = pow2 52 * ?q"
    unfolding pow2_add [symmetric] by simp
  then have e52: "pow2 e = of_int (2 ^ 52) * ?q" by (simp only: p52)
  have "e + 1 = 53 + (e - 52)" by simp
  then have "pow2 (e + 1) = pow2 (53 + (e - 52))" by (rule arg_cong)
  then have "pow2 (e + 1) = pow2 53 * ?q" by (simp only: pow2_add)
  then have e53: "pow2 (e + 1) = of_int (2 ^ 53) * ?q" by (simp only: p53)
  have "of_int (2 ^ 52) \<le> x / ?q"
    using lo q by (simp only: e52 pos_le_divide_eq)
  then have m1: "2 ^ 52 \<le> roundEven (x / ?q)" by (rule roundEven_ge)
  have "x / ?q \<le> of_int (2 ^ 53)"
    using hi q by (simp only: e53 pos_divide_le_eq less_imp_le)
  then have m2: "roundEven (x / ?q) \<le> 2 ^ 53" by (rule roundEven_le)
  have "of_int (2 ^ 52) * ?q \<le> r"
    unfolding r_def using m1 q by (simp only: mult_le_cancel_right_pos of_int_le_iff)
  then show r1: "pow2 e \<le> r" by (simp only: e52)
  have "r \<le> of_int (2 ^ 53) * ?q"
    unfolding r_def using m2 q by (simp only: mult_le_cancel_right_pos of_int_le_iff)
  then show r2: "r \<le> pow2 (e + 1)" by (simp only: e53)
  have "pow2 (e + 1) < pow2 1024" using e by (intro pow2_less) simp
  with r2 have fin: "\<not> pow2 1024 \<le> \<bar>r\<bar>" using r1 pow2_pos [of e] by simp
  have mx: "max (e - 52) (- 1074) = e - 52" using e by simp
  show "toDouble x = Fin r"
    using x fin unfolding toDouble_def il mx r_def by (simp add: Let_def)
qed


lemma roundEven_nearest:
  assumes "of_int m - 1 / 2 < y" and "y < of_int m + 1 / 2"
  shows "roundEven y = m"
proof (cases "of_int m \<le> y")
  case True
  with assms(2) have "\<lfloor>y\<rfloor> = m" by (intro floor_unique) simp_all
  with assms(2) show ?thesis by (simp add: roundEven_def Let_def)
next
  case False
  with assms(1) have "\<lfloor>y\<rfloor> = m - 1" by (intro floor_unique) simp_all
  with False assms(1) show ?thesis by (simp add: roundEven_def Let_def)
qed

lemma roundEven_tie:
  assumes "y = of_int f + 1 / 2"
  shows "roundEven y = (if even f then f else f + 1)"
proof -
  have "\<lfloor>y\<rfloor> = f" unfolding assms by (intro floor_unique) simp_all
  then show ?thesis by (simp add: roundEven_def Let_def assms)
qed

lemma toDouble_round:
  assumes lo: "pow2 e \<le> \<bar>x\<bar>" and hi: "\<bar>x\<bar> < pow2 (e + 1)"
    and e: "- 1022 \<le> e" "e \<le> 1022"
    and m: "roundEven (x / pow2 (e - 52)) = m"
  shows "toDouble x = Fin (of_int m * pow2 (e - 52))"
proof -
  let ?q = "pow2 (e - 52)"
  have q: "0 < ?q" by (rule pow2_pos)
  have x: "x \<noteq> 0" using pow2_pos [of e] lo by auto
  have il: "ilog2 \<bar>x\<bar> = e" using lo hi by (rule ilog2_unique)
  have p53: "pow2 53 = of_int (2 ^ 53)" by (simp add: pow2_def)
  have "e + 1 = 53 + (e - 52)" by simp
  then have "pow2 (e + 1) = pow2 (53 + (e - 52))" by (rule arg_cong)
  then have e53: "pow2 (e + 1) = of_int (2 ^ 53) * ?q" by (simp only: pow2_add p53)
  have ax: "\<bar>x / ?q\<bar> \<le> of_int (2 ^ 53)"
    using hi q by (simp add: e53 abs_divide pos_divide_le_eq less_imp_le abs_of_pos [of ?q] del: of_int_power of_int_numeral)
  have "x / ?q \<le> of_int (2 ^ 53)" using ax by (rule order_trans [OF abs_ge_self])
  then have m2: "m \<le> 2 ^ 53" unfolding m [symmetric] by (rule roundEven_le)
  have "- (x / ?q) \<le> of_int (2 ^ 53)" using ax by (rule order_trans [OF abs_ge_minus_self])
  then have "of_int (- (2 ^ 53)) \<le> x / ?q" by (simp only: of_int_minus neg_le_iff_le minus_le_iff)
  then have m1: "- (2 ^ 53) \<le> m" unfolding m [symmetric] by (rule roundEven_ge)
  from m1 m2 have "\<bar>m\<bar> \<le> 2 ^ 53" by (simp add: abs_le_iff)
  then have "\<bar>of_int m :: rat\<bar> \<le> of_int (2 ^ 53)"
    by (simp only: of_int_abs [symmetric] of_int_le_iff)
  then have "\<bar>of_int m * ?q\<bar> \<le> of_int (2 ^ 53) * ?q"
    using q by (simp add: abs_mult abs_of_pos [of ?q] del: of_int_power of_int_numeral)
  also have "\<dots> = pow2 (e + 1)" by (simp only: e53)
  also have "\<dots> < pow2 1024" using e by (intro pow2_less) simp
  finally have fin: "\<not> pow2 1024 \<le> \<bar>of_int m * ?q\<bar>" by simp
  have mx: "max (e - 52) (- 1074) = e - 52" using e by simp
  show ?thesis
    using x fin unfolding toDouble_def il mx by (simp add: Let_def m)
qed

lemma toDouble_nearest:
  assumes "pow2 e \<le> \<bar>x\<bar>" and "\<bar>x\<bar> < pow2 (e + 1)" and "- 1022 \<le> e" and "e \<le> 1022"
    and "of_int m - 1 / 2 < x / pow2 (e - 52)" and "x / pow2 (e - 52) < of_int m + 1 / 2"
  shows "toDouble x = Fin (of_int m * pow2 (e - 52))"
  using assms(1-4) roundEven_nearest [OF assms(5,6)] by (rule toDouble_round)

lemma toDouble_tie:
  assumes "pow2 e \<le> \<bar>x\<bar>" and "\<bar>x\<bar> < pow2 (e + 1)" and "- 1022 \<le> e" and "e \<le> 1022"
    and "x / pow2 (e - 52) = of_int f + 1 / 2"
  shows "toDouble x = Fin (of_int (if even f then f else f + 1) * pow2 (e - 52))"
  using assms(1-4) roundEven_tie [OF assms(5)] by (rule toDouble_round)

lemma toDouble_range:
  assumes lo: "pow2 a \<le> x" and hi: "x \<le> pow2 b" and a: "- 1022 \<le> a" and b: "b \<le> 1022"
  shows "\<exists>r. toDouble x = Fin r \<and> pow2 a \<le> r \<and> r \<le> pow2 (b + 1)"
proof -
  have x: "0 < x" using pow2_pos [of a] lo by simp
  define e where "e = ilog2 x"
  from ilog2_bounds [OF x] have elo: "pow2 e \<le> x" and ehi: "x < pow2 (e + 1)"
    by (simp_all add: e_def)
  have ae: "a \<le> e"
  proof (rule ccontr)
    assume "\<not> a \<le> e"
    then have "pow2 (e + 1) \<le> pow2 a" by (intro pow2_le) simp
    with lo ehi show False by simp
  qed
  have eb: "e \<le> b"
  proof (rule ccontr)
    assume "\<not> e \<le> b"
    then have "pow2 b < pow2 e" by (intro pow2_less) simp
    with hi elo show False by simp
  qed
  from ae a have e1: "- 1022 \<le> e" by simp
  from eb b have e2: "e \<le> 1022" by simp
  from toDouble_binade [OF elo ehi e1 e2]
  obtain r where r: "toDouble x = Fin r" "pow2 e \<le> r" "r \<le> pow2 (e + 1)" by blast
  from ae have "pow2 a \<le> pow2 e" by (rule pow2_le)
  moreover from eb have "pow2 (e + 1) \<le> pow2 (b + 1)" by (intro pow2_le) simp
  ultimately show ?thesis using r by auto
qed

lemma roundEven_error: "\<bar>of_int (roundEven y) - y\<bar> \<le> 1 / 2"
proof -
  have "of_int \<lfloor>y\<rfloor> \<le> y" and "y < of_int \<lfloor>y\<rfloor> + 1" by linarith+
  then show ?thesis by (auto simp: roundEven_def Let_def abs_le_iff)
qed

lemma toDouble_rel:
  assumes lo: "pow2 (- 1022) \<le> x" and hi: "x \<le> pow2 1022"
  shows "\<exists>r. toDouble x = Fin r \<and> x * (1 - unitRoundoff) \<le> r \<and> r \<le> x * (1 + unitRoundoff)"
proof -
  have x: "0 < x" using pow2_pos [of "- 1022"] lo by simp
  define e where "e = ilog2 x"
  from ilog2_bounds [OF x] have elo: "pow2 e \<le> x" and ehi: "x < pow2 (e + 1)"
    by (simp_all add: e_def)
  have e1: "- 1022 \<le> e"
  proof (rule ccontr)
    assume "\<not> - 1022 \<le> e"
    then have "pow2 (e + 1) \<le> pow2 (- 1022)" by (intro pow2_le) simp
    with lo ehi show False by simp
  qed
  have e2: "e \<le> 1022"
  proof (rule ccontr)
    assume "\<not> e \<le> 1022"
    then have "pow2 1022 < pow2 e" by (intro pow2_less) simp
    with hi elo show False by simp
  qed
  let ?q = "pow2 (e - 52)"
  define r where "r = of_int (roundEven (x / ?q)) * ?q"
  have q: "0 < ?q" by (rule pow2_pos)
  have fin: "toDouble x = Fin r"
    unfolding r_def using elo ehi e1 e2 by (rule toDouble_binade)
  have "r - x = (of_int (roundEven (x / ?q)) - x / ?q) * ?q"
    using q by (simp add: r_def field_simps)
  then have "\<bar>r - x\<bar> = \<bar>of_int (roundEven (x / ?q)) - x / ?q\<bar> * \<bar>?q\<bar>"
    by (simp only: abs_mult)
  also have "\<dots> = \<bar>of_int (roundEven (x / ?q)) - x / ?q\<bar> * ?q"
    using q by (simp only: abs_of_pos)
  also have "\<dots> \<le> 1 / 2 * ?q"
    using roundEven_error [of "x / ?q"] q by (intro mult_right_mono) simp_all
  also have "1 / 2 * ?q = pow2 e * unitRoundoff"
  proof -
    have "e = (e - 52) + 52" by simp
    then have "pow2 e = pow2 ((e - 52) + 52)" by (rule arg_cong)
    then have "pow2 e = ?q * pow2 52" by (simp only: pow2_add)
    then show ?thesis by (simp add: unitRoundoff_def pow2_def)
  qed
  also have "\<dots> \<le> x * unitRoundoff"
    using elo by (intro mult_right_mono) (simp_all add: unitRoundoff_def)
  finally have "\<bar>r - x\<bar> \<le> x * unitRoundoff" .
  then have "x * (1 - unitRoundoff) \<le> r \<and> r \<le> x * (1 + unitRoundoff)"
    by (simp add: abs_le_iff algebra_simps)
  with fin show ?thesis by blast
qed

lemma bernoulli_upper:
  fixes x :: rat
  assumes "0 \<le> x" and "2 * of_nat n * x \<le> 1"
  shows "(1 + x) ^ n \<le> 1 + 2 * of_nat n * x"
  using assms(2)
proof (induction n)
  case 0
  show ?case by simp
next
  case (Suc n)
  have small: "2 * of_nat n * x \<le> 1"
    using Suc.prems assms(1) by (simp add: algebra_simps)
  then have ih: "(1 + x) ^ n \<le> 1 + 2 * of_nat n * x" by (rule Suc.IH)
  have "(1 + x) ^ Suc n = (1 + x) ^ n * (1 + x)" by simp
  also have "\<dots> \<le> (1 + 2 * of_nat n * x) * (1 + x)"
    using ih assms(1) by (intro mult_right_mono) simp_all
  also have "\<dots> = 1 + 2 * of_nat n * x + x + (2 * of_nat n * x) * x"
    by (simp add: algebra_simps)
  also have "\<dots> \<le> 1 + 2 * of_nat n * x + x + 1 * x"
    using small assms(1) by (intro add_left_mono mult_right_mono)
  also have "\<dots> = 1 + 2 * of_nat (Suc n) * x" by (simp add: algebra_simps)
  finally show ?case .
qed


lemma unitRoundoff_bounds: "0 < unitRoundoff" "unitRoundoff < 1"
  by (simp_all add: unitRoundoff_def)

lemma js_add_rel:
  assumes a: "a = 0 \<or> pow2 (- 10) \<le> a" and q: "q = 0 \<or> pow2 (- 10) \<le> q"
    and hi: "a + q \<le> pow2 1022"
  shows "\<exists>r. js_add (Fin a) (Fin q) = Fin r \<and>
    (a + q) * (1 - unitRoundoff) \<le> r \<and> r \<le> (a + q) * (1 + unitRoundoff) \<and>
    (r = 0 \<or> pow2 (- 10) \<le> r)"
proof (cases "a + q = 0")
  case True
  then show ?thesis by (simp add: toDouble_def)
next
  case False
  have p: "0 < pow2 (- 10)" by (rule pow2_pos)
  from a q False p have lo: "pow2 (- 10) \<le> a + q" by auto
  have "pow2 (- 1022) \<le> pow2 (- 10)" by (intro pow2_le) simp
  with lo have "pow2 (- 1022) \<le> a + q" by simp
  from toDouble_rel [OF this hi] obtain r where
    r: "toDouble (a + q) = Fin r" "(a + q) * (1 - unitRoundoff) \<le> r"
      "r \<le> (a + q) * (1 + unitRoundoff)" by blast
  from toDouble_range [OF lo hi] obtain r' where
    "toDouble (a + q) = Fin r'" and "pow2 (- 10) \<le> r'" by auto
  with r(1) have "pow2 (- 10) \<le> r" by simp
  with r show ?thesis by simp
qed

section \<open>What the probers return\<close>

text \<open>
  Claim C10. Every outcome of the prober of src/index.ts carries exactly one of
  \<^verbatim>\<open>statusCode\<close> and \<^verbatim>\<open>error\<close>. An outcome resolved on \<^verbatim>\<open>'end'\<close> has the
  status code, \<open>0\<close> when the transport reports none or a falsy one (and is then no
  success for the aggregator), and no error; an outcome resolved on the \<^verbatim>\<open>'error'\<close>
  of the response stream has the error and no status code. No other exchange
  resolves.
\<close>

theorem makeRequest_status_xor_error:
  assumes "makeRequest startTime ex = Resolved stat"
  shows "((statusCode stat \<noteq> None) \<noteq> (error stat \<noteq> None)) \<and>
    (\<forall>status dataTimes endTime. ex = Response status dataTimes (End endTime) \<longrightarrow>
       statusCode stat = Some (orZero status) \<and> error stat = None \<and>
       ((status = None \<or> status = Some 0) \<longrightarrow> statusCode stat = Some 0 \<and> \<not> isSuccess stat)) \<and>
    (\<forall>status dataTimes message endTime.
       ex = Response status dataTimes (StreamError message endTime) \<longrightarrow>
       error stat = Some message \<and> statusCode stat = None) \<and>
    (\<exists>status dataTimes endTime.
       ex = Response status dataTimes (End endTime) \<or>
       (\<exists>message. ex = Response status dataTimes (StreamError message endTime)))"
  using assms
  by (cases "(startTime, ex)" rule: makeRequest.cases)
     (auto simp: Let_def orZero_def isSuccess_def)

theorem makeRequest_status_xor_error_witness:
  "makeRequest 1000 (Response None [1040, 1050] (End 1060)) =
     Resolved \<lparr>statusCode = Some 0, error = None, totalTime = 60,
       timeToFirstByte = Some 40, timeToLastByte = Some 20\<rparr> \<and>
   \<not> isSuccess \<lparr>statusCode = Some 0, error = None, totalTime = 60,
       timeToFirstByte = Some 40, timeToLastByte = Some 20\<rparr>"
proof -
  have h: "makeRequest 1000 (Response None [1040, 1050] (End 1060)) =
     Resolved \<lparr>statusCode = Some 0, error = None, totalTime = 60,
       timeToFirstByte = Some 40, timeToLastByte = Some 20\<rparr>"
    by (simp add: onData_def whenTruthy_def orZero_def)
  from makeRequest_status_xor_error [OF h] show ?thesis using h by simp
qed

text \<open>
  Claim C8, as stated, fails on src/index.ts: the response arrived with status 200
  and a chunk, then its stream failed; the outcome has no status code.
\<close>

theorem makeRequest_stream_error_counterexample:
  "makeRequest 1000 (Response (Some 200) [1040] (StreamError ''aborted'' 1060)) =
     Resolved \<lparr>statusCode = None, error = Some ''aborted'', totalTime = 60,
       timeToFirstByte = None, timeToLastByte = None\<rparr>"
  by simp

text \<open>
  Claim C8, amended. In src/index.ts an outcome has a status code exactly when the
  response ended without a stream error. In the revision with method and body every
  outcome has one and comes from a response; after a stream error it stands beside
  the error message. In both, a request that fails before any response gives no
  outcome: the promise stays pending, respectively is rejected.
\<close>

theorem statusCode_present:
  "(makeRequest startTime ex = Resolved stat \<longrightarrow>
      (statusCode stat \<noteq> None) =
      (\<exists>status dataTimes endTime. ex = Response status dataTimes (End endTime))) \<and>
   (makeRequest_body startTime ex = Resolved stat \<longrightarrow>
      statusCode stat \<noteq> None \<and> (\<exists>status dataTimes last. ex = Response status dataTimes last)) \<and>
   makeRequest_body startTime (Response status dataTimes (StreamError message endTime)) =
     Resolved \<lparr>statusCode = Some (orZero status), error = Some message,
       totalTime = endTime - startTime, timeToFirstByte = None, timeToLastByte = None\<rparr> \<and>
   makeRequest startTime (RequestError message) = Unsettled \<and>
   makeRequest_body startTime (RequestError message) = Rejected message"
proof -
  have "makeRequest startTime ex = Resolved stat \<longrightarrow>
      (statusCode stat \<noteq> None) =
      (\<exists>status dataTimes endTime. ex = Response status dataTimes (End endTime))"
    by (cases "(startTime, ex)" rule: makeRequest.cases) (auto simp: Let_def)
  moreover have "makeRequest_body startTime ex = Resolved stat \<longrightarrow>
      statusCode stat \<noteq> None \<and> (\<exists>status dataTimes last. ex = Response status dataTimes last)"
    by (cases "(startTime, ex)" rule: makeRequest_body.cases) (auto simp: Let_def)
  ultimately show ?thesis by simp
qed

theorem statusCode_present_witness:
  "makeRequest 1000 (Response (Some 204) [] (End 1060)) =
     Resolved \<lparr>statusCode = Some 204, error = None, totalTime = 60,
       timeToFirstByte = None, timeToLastByte = None\<rparr> \<and>
   makeRequest_body 1000 (Response (Some 200) [1040] (StreamError ''ECONNRESET'' 1060)) =
     Resolved \<lparr>statusCode = Some 200, error = Some ''ECONNRESET'', totalTime = 60,
       timeToFirstByte = None, timeToLastByte = None\<rparr> \<and>
   makeRequest 1000 (RequestError ''ECONNRESET'') = Unsettled \<and>
   makeRequest_body 1000 (RequestError ''ECONNRESET'') = Rejected ''ECONNRESET''"
proof -
  have h: "makeRequest 1000 (Response (Some 204) [] (End 1060)) =
     Resolved \<lparr>statusCode = Some 204, error = None, totalTime = 60,
       timeToFirstByte = None, timeToLastByte = None\<rparr>"
    by (simp add: whenTruthy_def orZero_def)
  from statusCode_present [where startTime = 1000 and status = "Some 200"
      and ex = "Response (Some 204) [] (End 1060)" and dataTimes = "[1040]"
      and message = "''ECONNRESET''" and endTime = 1060]
  show ?thesis using h by (simp add: orZero_def)
qed

text \<open>
  Claim C5 on the command-line script: the first chunk arrives 50 ms after the call
  and the response ends 10 ms later. The script reports 60 ms as time to last byte,
  so the two byte times add up to 110 ms, not to the total of 60 ms.
\<close>

theorem makeRequest_cli_last_byte_from_issue:
  "makeRequest_cli 1000 (Response (Some 200) [1050] (End 1060)) =
     Resolved \<lparr>statusCode = Some 200, error = None, totalTime = 60,
       timeToFirstByte = Some 50, timeToLastByte = Some 60\<rparr>"
  by (simp add: onData_def whenTruthy_def orZero_def)

text \<open>
  The probers of src/index.ts and of the revision with method and body measure the
  time to last byte from the first chunk: where both byte times are present they add
  up to the total time.
\<close>

lemma makeRequest_byte_times:
  assumes "makeRequest startTime ex = Resolved stat"
    and "timeToFirstByte stat = Some a" and "timeToLastByte stat = Some b"
  shows "a + b = totalTime stat"
  using assms
  by (cases "(startTime, ex)" rule: makeRequest.cases)
     (auto simp: Let_def whenTruthy_def split: option.splits if_splits)

lemma makeRequest_body_byte_times:
  assumes "makeRequest_body startTime ex = Resolved stat"
    and "timeToFirstByte stat = Some a" and "timeToLastByte stat = Some b"
  shows "a + b = totalTime stat"
  using assms
  by (cases "(startTime, ex)" rule: makeRequest_body.cases)
     (auto simp: Let_def whenTruthy_def split: option.splits if_splits)

lemma makeRequest_byte_times_example:
  "makeRequest 1000 (Response (Some 200) [1050] (End 1060)) =
     Resolved \<lparr>statusCode = Some 200, error = None, totalTime = 60,
       timeToFirstByte = Some 50, timeToLastByte = Some 10\<rparr> \<and> (50::int) + 10 = 60"
proof -
  have h: "makeRequest 1000 (Response (Some 200) [1050] (End 1060)) =
     Resolved \<lparr>statusCode = Some 200, error = None, totalTime = 60,
       timeToFirstByte = Some 50, timeToLastByte = Some 10\<rparr>"
    by (simp add: onData_def whenTruthy_def orZero_def)
  from makeRequest_byte_times [OF h, of 50 10] show ?thesis using h by simp
qed

section \<open>The dispatch\<close>

lemma pool_inv_newPool: "pool_inv probe numRequests newPool"
  by (simp add: pool_inv_def newPool_def)

lemma worker_keeps_inv:
  assumes "pool_inv probe numRequests st"
    and "requestSent st < numRequests \<longrightarrow> int w < numRequests"
  shows "pool_inv probe numRequests (worker numRequests w st)"
  using assms by (auto simp: pool_inv_def worker_def)

lemma worker_started: "started numRequests (worker numRequests w st)"
  by (simp add: started_def worker_def)

lemma settle_keeps_inv:
  assumes inv: "pool_inv probe numRequests st"
    and wk: "wk \<in> set (awaiting st)"
    and res: "probe (snd wk) = Resolved stat"
  shows "pool_inv probe numRequests
           (st\<lparr>stats := stats st @ [stat], awaiting := remove1 wk (awaiting st)\<rparr>)"
proof -
  from wk have "mset (awaiting st) = add_mset wk (mset (remove1 wk (awaiting st)))"
    by simp
  then have "mset (map (\<lambda>wk. probe (snd wk)) (awaiting st)) =
      add_mset (Resolved stat) (mset (map (\<lambda>wk. probe (snd wk)) (remove1 wk (awaiting st))))"
    by (metis (no_types, lifting) image_mset_add_mset mset_map res)
  moreover have "set (remove1 wk (awaiting st)) \<subseteq> set (awaiting st)"
    by (rule set_remove1_subset)
  ultimately show ?thesis
    using inv by (auto simp: pool_inv_def)
qed

lemma resumed_keeps_inv:
  assumes inv: "pool_inv probe numRequests st"
    and wk: "wk \<in> set (awaiting st)"
    and res: "probe (snd wk) = Resolved stat"
  shows "pool_inv probe numRequests
           (worker numRequests (fst wk)
              (st\<lparr>stats := stats st @ [stat], awaiting := remove1 wk (awaiting st)\<rparr>))"
proof (rule worker_keeps_inv)
  show "pool_inv probe numRequests
           (st\<lparr>stats := stats st @ [stat], awaiting := remove1 wk (awaiting st)\<rparr>)"
    using assms by (rule settle_keeps_inv)
  from inv wk have "int (fst wk) < numRequests"
    by (auto simp: pool_inv_def)
  then show "requestSent (st\<lparr>stats := stats st @ [stat], awaiting := remove1 wk (awaiting st)\<rparr>)
      < numRequests \<longrightarrow> int (fst wk) < numRequests" by simp
qed

lemma launched_upto:
  "pool_inv probe numRequests (foldl (\<lambda>st w. worker numRequests w st) newPool [0..<m]) \<and>
   requestSent (foldl (\<lambda>st w. worker numRequests w st) newPool [0..<m])
     = min (int m) (max numRequests 0)"
proof (induction m)
  case 0
  show ?case using pool_inv_newPool [of probe numRequests] by (simp add: newPool_def)
next
  case (Suc m)
  let ?st = "foldl (\<lambda>st w. worker numRequests w st) newPool [0..<m]"
  from Suc have inv: "pool_inv probe numRequests ?st"
    and rs: "requestSent ?st = min (int m) (max numRequests 0)" by simp_all
  have step: "foldl (\<lambda>st w. worker numRequests w st) newPool [0..<Suc m]
      = worker numRequests m ?st" by simp
  have "requestSent ?st < numRequests \<longrightarrow> int m < numRequests" using rs by auto
  with inv have "pool_inv probe numRequests (worker numRequests m ?st)"
    by (rule worker_keeps_inv)
  moreover have "requestSent (worker numRequests m ?st) = min (int (Suc m)) (max numRequests 0)"
    using rs by (auto simp: worker_def)
  ultimately show ?case by (simp only: step)
qed

lemma launch_inv: "pool_inv probe numRequests (launch numRequests concurrency)"
  unfolding launch_def using launched_upto by blast

lemma launch_started:
  assumes "0 < concurrency"
  shows "started numRequests (launch numRequests concurrency)"
proof -
  from assms obtain m where m: "nat concurrency = Suc m"
    by (cases "nat concurrency") auto
  show ?thesis
    unfolding launch_def m by (simp add: worker_started)
qed

lemma joinAll_returns:
  assumes "pool_inv probe numRequests st" and "started numRequests st"
    and "joinAll probe numRequests sched st = Inr st'"
  shows "pool_inv probe numRequests st' \<and> awaiting st' = [] \<and> numRequests \<le> requestSent st'"
  using assms
proof (induction probe numRequests sched st rule: joinAll.induct)
  case (1 probe numRequests sched st)
  show ?case
  proof (cases "awaiting st = []")
    case True
    with "1.prems" show ?thesis
      by (simp add: joinAll.simps [of probe numRequests sched st] started_def)
  next
    case False
    with "1.prems"(3) obtain r rs where ready: "filter (settles probe) (awaiting st) = r # rs"
      by (cases "filter (settles probe) (awaiting st)")
         (simp_all add: joinAll.simps [of probe numRequests sched st])
    define wk where "wk = (r # rs) ! (pick sched mod length (r # rs))"
    have mem: "wk \<in> set (awaiting st)"
      unfolding wk_def using ready by (rule picked_awaiting)
    from "1.prems"(3) False ready obtain stat where res: "probe (snd wk) = Resolved stat"
      and rec: "joinAll probe numRequests (tl sched)
          (worker numRequests (fst wk)
             (st\<lparr>stats := stats st @ [stat], awaiting := remove1 wk (awaiting st)\<rparr>)) = Inr st'"
      by (cases "probe (snd wk)")
         (simp_all add: joinAll.simps [of probe numRequests sched st] wk_def Let_def)
    show ?thesis
    proof (rule "1.IH" [OF False ready wk_def res _ _ rec])
      show "pool_inv probe numRequests
          (worker numRequests (fst wk)
             (st\<lparr>stats := stats st @ [stat], awaiting := remove1 wk (awaiting st)\<rparr>))"
        using "1.prems"(1) mem res by (rule resumed_keeps_inv)
      show "started numRequests
          (worker numRequests (fst wk)
             (st\<lparr>stats := stats st @ [stat], awaiting := remove1 wk (awaiting st)\<rparr>))"
        by (rule worker_started)
    qed
  qed
qed


lemma awaiting_index:
  assumes "pool_inv probe numRequests st" and "wk \<in> set (awaiting st)"
  shows "snd wk < nat numRequests"
proof -
  from assms(1) have idx: "map snd (issued st) = [0..<length (issued st)]"
    and sub: "set (awaiting st) \<subseteq> set (issued st)"
    and rs: "requestSent st = int (length (issued st))"
    and bound: "requestSent st \<le> max numRequests 0"
    by (simp_all add: pool_inv_def)
  from sub assms(2) have "snd wk \<in> snd ` set (issued st)" by blast
  also have "snd ` set (issued st) = set (map snd (issued st))" by simp
  also have "\<dots> = {0..<length (issued st)}" by (simp only: idx set_upt)
  finally have "snd wk < length (issued st)" by simp
  with rs bound show ?thesis by simp
qed



lemma joinAll_completes:
  assumes "pool_inv probe numRequests st"
    and "\<forall>k < nat numRequests. \<exists>stat. probe k = Resolved stat"
  shows "\<exists>st'. joinAll probe numRequests sched st = Inr st'"
  using assms
proof (induction probe numRequests sched st rule: joinAll.induct)
  case (1 probe numRequests sched st)
  show ?case
  proof (cases "awaiting st = []")
    case True
    then show ?thesis by (simp add: joinAll.simps [of probe numRequests sched st])
  next
    case False
    have all: "\<forall>wk \<in> set (awaiting st). settles probe wk"
    proof
      fix wk assume "wk \<in> set (awaiting st)"
      with "1.prems"(1) have "snd wk < nat numRequests" by (rule awaiting_index)
      with "1.prems"(2) show "settles probe wk" by (auto simp: settles_def)
    qed
    then have "filter (settles probe) (awaiting st) = awaiting st" by simp
    with False obtain r rs where ready: "filter (settles probe) (awaiting st) = r # rs"
      by (cases "awaiting st") auto
    define wk where "wk = (r # rs) ! (pick sched mod length (r # rs))"
    have mem: "wk \<in> set (awaiting st)"
      unfolding wk_def using ready by (rule picked_awaiting)
    with "1.prems"(1) have "snd wk < nat numRequests" by (rule awaiting_index)
    with "1.prems"(2) obtain stat where res: "probe (snd wk) = Resolved stat" by blast
    have "\<exists>st'. joinAll probe numRequests (tl sched)
          (worker numRequests (fst wk)
             (st\<lparr>stats := stats st @ [stat], awaiting := remove1 wk (awaiting st)\<rparr>)) = Inr st'"
    proof (rule "1.IH" [OF False ready wk_def res _ "1.prems"(2)])
      show "pool_inv probe numRequests
          (worker numRequests (fst wk)
             (st\<lparr>stats := stats st @ [stat], awaiting := remove1 wk (awaiting st)\<rparr>))"
        using "1.prems"(1) mem res by (rule resumed_keeps_inv)
    qed
    then show ?thesis
      using False ready res unfolding wk_def
      by (simp add: joinAll.simps [of probe numRequests sched st] Let_def)
  qed
qed

text \<open>What holds of a pool in which every worker has left its loop.\<close>

lemma joined_pool:
  assumes n: "0 < numRequests"
    and inv: "pool_inv probe numRequests st" and idle: "awaiting st = []"
    and all: "numRequests \<le> requestSent st"
  shows "map snd (issued st) = [0..<nat numRequests] \<and>
     length (stats st) = nat numRequests \<and>
     mset (map Resolved (stats st)) = mset (map probe [0..<nat numRequests]) \<and>
     (\<forall>wk \<in> set (issued st). int (fst wk) < numRequests)"
proof -
  from n inv all have len: "length (issued st) = nat numRequests"
    by (auto simp: pool_inv_def)
  from inv have idx: "map snd (issued st) = [0..<nat numRequests]"
    by (simp add: pool_inv_def len)
  from inv idle have "mset (map Resolved (stats st)) = mset (map (\<lambda>wk. probe (snd wk)) (issued st))"
    by (simp add: pool_inv_def)
  also have "map (\<lambda>wk. probe (snd wk)) (issued st) = map probe (map snd (issued st))"
    by simp
  finally have ms: "mset (map Resolved (stats st)) = mset (map probe [0..<nat numRequests])"
    by (simp only: idx)
  from ms have "size (mset (map Resolved (stats st))) = size (mset (map probe [0..<nat numRequests]))"
    by (rule arg_cong)
  then have sz: "length (stats st) = nat numRequests" by simp
  from inv have "\<forall>wk \<in> set (issued st). int (fst wk) < numRequests"
    by (simp add: pool_inv_def)
  with idx sz ms show ?thesis by blast
qed

lemma dispatch_joined:
  assumes "0 < numRequests" and "0 < concurrency"
    and run: "dispatch probe numRequests concurrency sched = Inr st"
  shows "awaiting st = [] \<and>
     map snd (issued st) = [0..<nat numRequests] \<and>
     length (stats st) = nat numRequests \<and>
     mset (map Resolved (stats st)) = mset (map probe [0..<nat numRequests]) \<and>
     (\<forall>wk \<in> set (issued st). int (fst wk) < numRequests)"
proof -
  have "pool_inv probe numRequests st \<and> awaiting st = [] \<and> numRequests \<le> requestSent st"
  proof (rule joinAll_returns)
    show "pool_inv probe numRequests (launch numRequests concurrency)" by (rule launch_inv)
    show "started numRequests (launch numRequests concurrency)"
      using assms(2) by (rule launch_started)
    show "joinAll probe numRequests sched (launch numRequests concurrency) = Inr st"
      using run by (simp only: dispatch_def)
  qed
  then have inv: "pool_inv probe numRequests st" and idle: "awaiting st = []"
    and all: "numRequests \<le> requestSent st" by simp_all
  from joined_pool [OF assms(1) inv idle all] idle show ?thesis by simp
qed

lemma dispatch_completes:
  assumes "\<forall>k < nat numRequests. \<exists>stat. probe k = Resolved stat"
  shows "\<exists>st. dispatch probe numRequests concurrency sched = Inr st"
  unfolding dispatch_def using launch_inv assms by (rule joinAll_completes)


text \<open>
  Claim C1. With a positive number of requests and of workers, a dispatch that
  returns has called the prober once for each of the numbers \<open>0\<close> to
  \<open>numRequests - 1\<close> and no more, its array \<^verbatim>\<open>stats\<close> holds \<open>numRequests\<close>
  outcomes, which are the outcomes of those calls, and only workers with an index
  below \<open>numRequests\<close> made a call: workers beyond the number of requests claim
  nothing. The dispatch does return, whatever the order of completion, when every
  call resolves.
\<close>

theorem dispatch_exactly_once:
  assumes "0 < numRequests" and "0 < concurrency"
  shows "(dispatch probe numRequests concurrency sched = Inr st \<longrightarrow>
            awaiting st = [] \<and>
            map snd (issued st) = [0..<nat numRequests] \<and>
            length (stats st) = nat numRequests \<and>
            mset (map Resolved (stats st)) = mset (map probe [0..<nat numRequests]) \<and>
            (\<forall>wk \<in> set (issued st). int (fst wk) < numRequests)) \<and>
         ((\<forall>k < nat numRequests. \<exists>stat. probe k = Resolved stat) \<longrightarrow>
            (\<exists>st'. dispatch probe numRequests concurrency sched = Inr st'))"
  using dispatch_joined [OF assms, of probe sched st]
    dispatch_completes [of numRequests probe concurrency sched]
  by blast

lemma mixed_dispatch:
  "dispatch (\<lambda>k. makeRequest (startTimes mixed k) (transport mixed k)) 3 5 (schedule mixed) =
     Inr mixed_pool"
  by code_simp

theorem dispatch_exactly_once_witness:
  "dispatch (\<lambda>k. makeRequest (startTimes mixed k) (transport mixed k)) 3 5 (schedule mixed) =
     Inr mixed_pool \<and>
   awaiting mixed_pool = [] \<and>
   map snd (issued mixed_pool) = [0..<nat 3] \<and>
   length (stats mixed_pool) = nat 3 \<and>
   mset (map Resolved (stats mixed_pool)) =
     mset (map (\<lambda>k. makeRequest (startTimes mixed k) (transport mixed k)) [0..<nat 3])"
proof -
  have pos: "(0::int) < 3" "(0::int) < 5" by simp_all
  from dispatch_exactly_once [OF pos, where st = mixed_pool
      and probe = "\<lambda>k. makeRequest (startTimes mixed k) (transport mixed k)"
      and sched = "schedule mixed"] mixed_dispatch
  show ?thesis by blast
qed

section \<open>The summary\<close>

text \<open>
  Claim C2. The summary of a completed run satisfies
  \<open>successCount + failedCount = numRequests\<close>; the successes are the outcomes with a
  status code from 200 to 299, the failures are all the others.
\<close>

lemma calcStats_returns:
  "calcStats maxArgs values = Inr g \<longleftrightarrow>
     length values \<le> maxArgs \<and>
     g = \<lparr>min_of = Math_min values, max_of = Math_max values,
          avg = js_div (foldl js_add (Fin 0) values) (num (int (length values)))\<rparr>"
  by (auto simp: calcStats_def Let_def)

lemma calcStats_throws:
  "calcStats maxArgs values = Inl e \<longleftrightarrow> maxArgs < length values \<and> e = RangeError"
  by (auto simp: calcStats_def Let_def)

lemma byte_times_length:
  "length (ttfbTimes sts) \<le> length sts" "length (ttlbTimes sts) \<le> length sts"
  by (simp_all add: ttfbTimes_def ttlbTimes_def)

lemma summarize_fields:
  assumes "summarize maxArgs sts numRequests testStartTime testEndTime = Inr summary"
  shows "length sts \<le> maxArgs"
    and "successCount summary = int (length (filter isSuccess sts))"
    and "failedCount summary = int (length sts) - successCount summary"
    and "requestsPerSecond summary =
      js_div (num numRequests) (js_div (num (testEndTime - testStartTime)) (num 1000))"
    and "calcStats maxArgs (totalTimes sts) = Inr (totalTimeStats summary)"
    and "calcStats maxArgs (ttfbTimes sts) = Inr (timeToFirstByteStats summary)"
    and "calcStats maxArgs (ttlbTimes sts) = Inr (timeToLastByteStats summary)"
  using assms
  by (auto simp: summarize_def Let_def calcStats_returns totalTimes_def split: sum.splits)

lemma summarize_completes:
  assumes "length sts \<le> maxArgs"
  shows "\<exists>summary. summarize maxArgs sts numRequests testStartTime testEndTime = Inr summary"
proof -
  from assms byte_times_length [of sts]
  have "\<not> maxArgs < length (totalTimes sts)" "\<not> maxArgs < length (ttfbTimes sts)"
    "\<not> maxArgs < length (ttlbTimes sts)"
    by (simp_all add: totalTimes_def)
  then show ?thesis by (simp add: summarize_def calcStats_def Let_def)
qed


lemma summarize_cli_fields:
  assumes "summarize_cli maxArgs sts numRequests testStartTime totalEndTime = Inr summary"
  shows "length sts \<le> maxArgs"
    and "successCount summary = int (length (filter isSuccess sts))"
    and "failedCount summary = int (length sts) - successCount summary"
    and "requestsPerSecond summary =
      js_div (num numRequests) (js_div (num (testStartTime - totalEndTime)) (num 1000))"
    and "calcStats maxArgs (totalTimes sts) = Inr (totalTimeStats summary)"
    and "calcStats maxArgs (ttfbTimes sts) = Inr (timeToFirstByteStats summary)"
    and "calcStats maxArgs (ttlbTimes sts) = Inr (timeToLastByteStats summary)"
  using assms
  by (auto simp: summarize_cli_def Let_def calcStats_returns totalTimes_def split: sum.splits)

lemma runLoadTest_summary:
  assumes "runLoadTest maxArgs env numRequests concurrency = Inr summary"
  shows "\<exists>st. dispatch (\<lambda>k. makeRequest (startTimes env k) (transport env k))
            numRequests concurrency (schedule env) = Inr st \<and>
          summarize maxArgs (stats st) numRequests (clockAtStart env) (clockAtEnd env) =
            Inr summary"
  using assms by (auto simp: runLoadTest_def split: sum.splits)

lemma mixed_run:
  "runLoadTest maxArgs mixed 3 5 = summarize maxArgs (stats mixed_pool) 3 1000 3000"
  by (simp add: runLoadTest_def mixed_dispatch) (simp add: mixed_def)

lemma mixed_summary:
  "\<exists>summary. runLoadTest 100000 mixed 3 5 = Inr summary"
  unfolding mixed_run by (rule summarize_completes) (simp add: mixed_pool_def)

theorem summary_counts:
  assumes "0 < numRequests" and "0 < concurrency"
    and "runLoadTest maxArgs env numRequests concurrency = Inr summary"
  shows "successCount summary + failedCount summary = numRequests \<and>
    (\<exists>st. dispatch (\<lambda>k. makeRequest (startTimes env k) (transport env k))
            numRequests concurrency (schedule env) = Inr st \<and>
          successCount summary = int (length (filter isSuccess (stats st))) \<and>
          failedCount summary = int (length (stats st)) - successCount summary) \<and>
    (\<forall>s. isSuccess s = (\<exists>c. statusCode s = Some c \<and> 200 \<le> c \<and> c < 300))"
proof -
  from runLoadTest_summary [OF assms(3)] obtain st :: pool where
    run: "dispatch (\<lambda>k. makeRequest (startTimes env k) (transport env k))
            numRequests concurrency (schedule env) = Inr st"
    and sm: "summarize maxArgs (stats st) numRequests (clockAtStart env) (clockAtEnd env) =
      Inr summary"
    by blast
  from dispatch_joined [OF assms(1,2) run] have len: "length (stats st) = nat numRequests"
    by simp
  have sc: "successCount summary = int (length (filter isSuccess (stats st)))"
    and fc: "failedCount summary = int (length (stats st)) - successCount summary"
    by (rule summarize_fields(2) [OF sm], rule summarize_fields(3) [OF sm])
  have "successCount summary + failedCount summary = numRequests"
    using assms(1) len by (simp add: fc)
  moreover have "\<forall>s. isSuccess s = (\<exists>c. statusCode s = Some c \<and> 200 \<le> c \<and> c < 300)"
    by (auto simp: isSuccess_def split: option.splits)
  ultimately show ?thesis using run sc fc by blast
qed

theorem summary_counts_witness:
  "\<exists>summary. runLoadTest 100000 mixed 3 5 = Inr summary \<and>
     successCount summary = 1 \<and> failedCount summary = 2 \<and>
     successCount summary + failedCount summary = 3"
proof -
  have pos: "(0::int) < 3" "(0::int) < 5" by simp_all
  from mixed_summary obtain summary where run: "runLoadTest 100000 mixed 3 5 = Inr summary" ..
  from summary_counts [OF pos run] mixed_dispatch
  have total: "successCount summary + failedCount summary = 3"
    and sc: "successCount summary = int (length (filter isSuccess (stats mixed_pool)))"
    by auto
  from sc have "successCount summary = 1" by (simp add: mixed_pool_def isSuccess_def)
  with total run show ?thesis by simp
qed


section \<open>The rate\<close>

text \<open>Small values that binary64 holds exactly.\<close>

lemma toDouble_2: "toDouble 2 = Fin 2"
  using toDouble_nearest [of 1 2 "2 ^ 52"] by (simp add: pow2_def)

lemma toDouble_minus_2: "toDouble (- 2) = Fin (- 2)"
  using toDouble_nearest [of 1 "- 2" "- (2 ^ 52)"] by (simp add: pow2_def)


lemma toDouble_minus_3_2: "toDouble (- (3 / 2)) = Fin (- (3 / 2))"
  using toDouble_nearest [of 0 "- (3 / 2)" "- (3 * 2 ^ 51)"] by (simp add: pow2_def)








text \<open>
  The command-line script subtracts the other way round: a run of three requests
  that lasts two seconds is reported with a rate of \<open>-1.5\<close> per second.
\<close>

lemma summarize_cli_negative_rate:
  assumes "summarize_cli maxArgs sts 3 1000 3000 = Inr summary"
  shows "requestsPerSecond summary = Fin (- (3 / 2))"
  using summarize_cli_fields(4) [OF assms]
  by (simp add: num_def toDouble_minus_2 toDouble_minus_3_2)


section \<open>No outcomes\<close>

lemma calcStats_empty:
  "calcStats maxArgs [] = Inr \<lparr>min_of = PInf, max_of = NInf, avg = NaN\<rparr>"
  by (simp add: calcStats_def Math_min_def Math_max_def num_def)

lemma workers_without_work:
  assumes "\<not> requestSent st < numRequests"
  shows "foldl (\<lambda>st w. worker numRequests w st) st ws = st"
  using assms by (induction ws) (simp_all add: worker_def)

lemma dispatch_nothing: "dispatch probe 0 concurrency sched = Inr newPool"
proof -
  have "launch 0 concurrency = newPool"
    unfolding launch_def by (rule workers_without_work) (simp add: newPool_def)
  then show ?thesis
    by (simp add: dispatch_def joinAll.simps [of probe 0 sched newPool]) (simp add: newPool_def)
qed

text \<open>
  Claim C6, as stated, fails on src/index.ts: a run of zero requests aggregates the
  empty array and returns a summary whose three groups are \<open>Infinity\<close>,
  \<open>-Infinity\<close> and \<open>NaN\<close>; no error is raised.
\<close>

theorem empty_aggregation_counterexample:
  "runLoadTest 100000 mixed 0 4 =
     Inr \<lparr>successCount = 0, failedCount = 0, requestsPerSecond = Fin 0,
       totalTimeStats = \<lparr>min_of = PInf, max_of = NInf, avg = NaN\<rparr>,
       timeToFirstByteStats = \<lparr>min_of = PInf, max_of = NInf, avg = NaN\<rparr>,
       timeToLastByteStats = \<lparr>min_of = PInf, max_of = NInf, avg = NaN\<rparr>\<rparr>"
proof -
  have "runLoadTest 100000 mixed 0 4 = summarize 100000 [] 0 1000 3000"
    by (simp add: runLoadTest_def dispatch_nothing) (simp add: newPool_def mixed_def)
  moreover have "js_div (num 0) (js_div (num (3000 - 1000)) (num 1000)) = Fin 0"
    by (simp add: num_def toDouble_2) (simp add: toDouble_def)
  ultimately show ?thesis
    by (simp add: summarize_def Let_def calcStats_empty totalTimes_def ttfbTimes_def ttlbTimes_def)
qed

text \<open>
  Claim C6, amended. Aggregating an empty outcome collection does not fail: it
  returns a summary with both counts 0 and with minimum \<open>Infinity\<close>, maximum
  \<open>-Infinity\<close> and mean \<open>NaN\<close> in each of the three groups; a run of zero
  requests returns that summary. The same three values stand in the group of a byte
  time that no outcome reports, also when the collection is not empty.
\<close>

theorem empty_aggregation:
  "calcStats maxArgs [] = Inr \<lparr>min_of = PInf, max_of = NInf, avg = NaN\<rparr> \<and>
   summarize maxArgs [] numRequests testStartTime testEndTime =
     Inr \<lparr>successCount = 0, failedCount = 0,
      requestsPerSecond =
        js_div (num numRequests) (js_div (num (testEndTime - testStartTime)) (num 1000)),
      totalTimeStats = \<lparr>min_of = PInf, max_of = NInf, avg = NaN\<rparr>,
      timeToFirstByteStats = \<lparr>min_of = PInf, max_of = NInf, avg = NaN\<rparr>,
      timeToLastByteStats = \<lparr>min_of = PInf, max_of = NInf, avg = NaN\<rparr>\<rparr> \<and>
   runLoadTest maxArgs env 0 concurrency =
     summarize maxArgs [] 0 (clockAtStart env) (clockAtEnd env) \<and>
   (filter (\<lambda>s. timeToFirstByte s \<noteq> None) sts = [] \<longrightarrow>
      calcStats maxArgs (ttfbTimes sts) = Inr \<lparr>min_of = PInf, max_of = NInf, avg = NaN\<rparr> \<and>
      (summarize maxArgs sts numRequests testStartTime testEndTime = Inr summary \<longrightarrow>
         timeToFirstByteStats summary = \<lparr>min_of = PInf, max_of = NInf, avg = NaN\<rparr>)) \<and>
   (filter (\<lambda>s. timeToLastByte s \<noteq> None) sts = [] \<longrightarrow>
      calcStats maxArgs (ttlbTimes sts) = Inr \<lparr>min_of = PInf, max_of = NInf, avg = NaN\<rparr> \<and>
      (summarize maxArgs sts numRequests testStartTime testEndTime = Inr summary \<longrightarrow>
         timeToLastByteStats summary = \<lparr>min_of = PInf, max_of = NInf, avg = NaN\<rparr>))"
proof -
  have run: "runLoadTest maxArgs env 0 concurrency =
      summarize maxArgs [] 0 (clockAtStart env) (clockAtEnd env)"
    by (simp add: runLoadTest_def dispatch_nothing) (simp add: newPool_def)
  have first_call: "calcStats maxArgs (ttfbTimes sts) =
      Inr \<lparr>min_of = PInf, max_of = NInf, avg = NaN\<rparr>"
    if "filter (\<lambda>s. timeToFirstByte s \<noteq> None) sts = []"
    using that by (simp only: ttfbTimes_def list.map calcStats_empty)
  have final_call: "calcStats maxArgs (ttlbTimes sts) =
      Inr \<lparr>min_of = PInf, max_of = NInf, avg = NaN\<rparr>"
    if "filter (\<lambda>s. timeToLastByte s \<noteq> None) sts = []"
    using that by (simp only: ttlbTimes_def list.map calcStats_empty)
  have first: "timeToFirstByteStats summary = \<lparr>min_of = PInf, max_of = NInf, avg = NaN\<rparr>"
    if "filter (\<lambda>s. timeToFirstByte s \<noteq> None) sts = []"
      and "summarize maxArgs sts numRequests testStartTime testEndTime = Inr summary"
    using summarize_fields(6) [OF that(2)] first_call [OF that(1)] by simp
  have final: "timeToLastByteStats summary = \<lparr>min_of = PInf, max_of = NInf, avg = NaN\<rparr>"
    if "filter (\<lambda>s. timeToLastByte s \<noteq> None) sts = []"
      and "summarize maxArgs sts numRequests testStartTime testEndTime = Inr summary"
    using summarize_fields(7) [OF that(2)] final_call [OF that(1)] by simp
  have "summarize maxArgs [] numRequests testStartTime testEndTime =
     Inr \<lparr>successCount = 0, failedCount = 0,
      requestsPerSecond =
        js_div (num numRequests) (js_div (num (testEndTime - testStartTime)) (num 1000)),
      totalTimeStats = \<lparr>min_of = PInf, max_of = NInf, avg = NaN\<rparr>,
      timeToFirstByteStats = \<lparr>min_of = PInf, max_of = NInf, avg = NaN\<rparr>,
      timeToLastByteStats = \<lparr>min_of = PInf, max_of = NInf, avg = NaN\<rparr>\<rparr>"
    by (simp add: calcStats_empty summarize_def Let_def totalTimes_def ttfbTimes_def
        ttlbTimes_def)
  with run first_call final_call first final show ?thesis
    by (simp only: calcStats_empty) blast
qed

theorem empty_aggregation_witness:
  "filter (\<lambda>s. timeToFirstByte s \<noteq> None)
     [\<lparr>statusCode = Some 204, error = None, totalTime = 60,
        timeToFirstByte = None, timeToLastByte = None\<rparr>] = [] \<and>
   calcStats 100000
     (ttfbTimes [\<lparr>statusCode = Some 204, error = None, totalTime = 60,
                   timeToFirstByte = None, timeToLastByte = None\<rparr>]) =
     Inr \<lparr>min_of = PInf, max_of = NInf, avg = NaN\<rparr> \<and>
   (\<exists>summary.
      summarize 100000 [\<lparr>statusCode = Some 204, error = None, totalTime = 60,
                   timeToFirstByte = None, timeToLastByte = None\<rparr>] 1 1000 1060 =
        Inr summary \<and>
      timeToFirstByteStats summary = \<lparr>min_of = PInf, max_of = NInf, avg = NaN\<rparr> \<and>
      timeToLastByteStats summary = \<lparr>min_of = PInf, max_of = NInf, avg = NaN\<rparr>)"
proof -
  let ?sts = "[\<lparr>statusCode = Some 204, error = None, totalTime = 60,
        timeToFirstByte = None, timeToLastByte = None\<rparr>]"
  have "\<exists>summary. summarize 100000 ?sts 1 1000 1060 = Inr summary"
    by (rule summarize_completes) simp
  then obtain summary where sm: "summarize 100000 ?sts 1 1000 1060 = Inr summary" ..
  from empty_aggregation [where sts = ?sts and numRequests = 1 and maxArgs = 100000
      and testStartTime = 1000 and testEndTime = 1060 and summary = summary] sm
  have "calcStats 100000 (ttfbTimes ?sts) = Inr \<lparr>min_of = PInf, max_of = NInf, avg = NaN\<rparr>"
    "timeToFirstByteStats summary = \<lparr>min_of = PInf, max_of = NInf, avg = NaN\<rparr>"
    "timeToLastByteStats summary = \<lparr>min_of = PInf, max_of = NInf, avg = NaN\<rparr>"
    by simp_all
  with sm show ?thesis by simp
qed


section \<open>Transport failures\<close>











section \<open>One request, one worker\<close>

lemma dispatch_single:
  "dispatch probe 1 1 sched =
     (case probe 0 of
        Resolved stat \<Rightarrow>
          Inr \<lparr>requestSent = 1, stats = [stat], awaiting = [], issued = [(0, 0)]\<rparr>
      | Rejected message \<Rightarrow> Inl (RunRejected message)
      | Unsettled \<Rightarrow> Inl NeverCompletes)"
proof -
  have start: "launch 1 1 = \<lparr>requestSent = 1, stats = [], awaiting = [(0, 0)], issued = [(0, 0)]\<rparr>"
    by (simp add: launch_def newPool_def worker_def)
  show ?thesis
    by (cases "probe 0")
       (simp_all add: dispatch_def start joinAll.simps settles_def worker_def Let_def)
qed

text \<open>
  Claim C9, as stated, fails on the command-line script: with one request and one
  worker it prints the outcome of a direct call of the prober and computes no
  summary, where its \<^verbatim>\<open>runLoadTest\<close> would have printed the summary.
\<close>

lemma toDouble_quarter: "toDouble (1 / 4) = Fin (1 / 4)"
  using toDouble_nearest [of "- 2" "1 / 4" "2 ^ 52"] by (simp add: pow2_def)

lemma toDouble_minus_half: "toDouble (- (1 / 2)) = Fin (- (1 / 2))"
  using toDouble_nearest [of "- 1" "- (1 / 2)" "- (2 ^ 52)"] by (simp add: pow2_def)

lemma toDouble_tenth:
  "toDouble (1 / 10) = Fin (3602879701896397 / 36028797018963968)"
  using toDouble_nearest [of "- 4" "1 / 10" 7205759403792794] by (simp add: pow2_def)

lemma toDouble_tenth_again:
  "toDouble (3602879701896397 / 36028797018963968) =
     Fin (3602879701896397 / 36028797018963968)"
  using toDouble_nearest [of "- 4" "3602879701896397 / 36028797018963968" 7205759403792794]
  by (simp add: pow2_def)

lemma calcStats_single:
  assumes "toDouble q = Fin q"
  shows "calcStats 100000 [Fin q] = Inr \<lparr>min_of = Fin q, max_of = Fin q, avg = Fin q\<rparr>"
  using assms
  by (simp add: calcStats_def Let_def Math_min_def Math_max_def js_min2_def js_max2_def
      num_def)

theorem single_request_path_counterexample:
  "main_cli 100000 mixed 1 1 =
     Inr (Statistics \<lparr>statusCode = Some 200, error = None, totalTime = 250,
            timeToFirstByte = Some 100, timeToLastByte = Some 250\<rparr>) \<and>
   runLoadTest_cli 100000 mixed 1 1 =
     Inr \<lparr>successCount = 1, failedCount = 0, requestsPerSecond = Fin (- (1 / 2)),
       totalTimeStats = \<lparr>min_of = Fin (1 / 4), max_of = Fin (1 / 4), avg = Fin (1 / 4)\<rparr>,
       timeToFirstByteStats =
         \<lparr>min_of = Fin (3602879701896397 / 36028797018963968),
          max_of = Fin (3602879701896397 / 36028797018963968),
          avg = Fin (3602879701896397 / 36028797018963968)\<rparr>,
       timeToLastByteStats =
         \<lparr>min_of = Fin (1 / 4), max_of = Fin (1 / 4), avg = Fin (1 / 4)\<rparr>\<rparr> \<and>
   main_cli 100000 mixed 1 1 \<noteq>
     (case runLoadTest_cli 100000 mixed 1 1 of
        Inl e \<Rightarrow> Inl e | Inr summary \<Rightarrow> Inr (Results summary))"
proof -
  have stat: "makeRequest_cli (startTimes mixed 0) (transport mixed 0) =
      Resolved \<lparr>statusCode = Some 200, error = None, totalTime = 250,
        timeToFirstByte = Some 100, timeToLastByte = Some 250\<rparr>"
    by (simp add: mixed_def onData_def whenTruthy_def orZero_def)
  have printed: "main_cli 100000 mixed 1 1 =
     Inr (Statistics \<lparr>statusCode = Some 200, error = None, totalTime = 250,
            timeToFirstByte = Some 100, timeToLastByte = Some 250\<rparr>)"
    by (simp add: main_cli_def stat)
  have run: "runLoadTest_cli 100000 mixed 1 1 =
     summarize_cli 100000 [\<lparr>statusCode = Some 200, error = None, totalTime = 250,
            timeToFirstByte = Some 100, timeToLastByte = Some 250\<rparr>] 1 1000 3000"
    by (simp add: runLoadTest_cli_def dispatch_single stat) (simp add: mixed_def)
  have secs: "seconds 250 = Fin (1 / 4)"
    "seconds 100 = Fin (3602879701896397 / 36028797018963968)"
    by (simp_all add: seconds_def num_def toDouble_quarter toDouble_tenth)
  have rate: "js_div (num 1) (js_div (num (1000 - 3000)) (num 1000)) = Fin (- (1 / 2))"
    by (simp add: num_def toDouble_minus_2 toDouble_minus_half)
  have "summarize_cli 100000 [\<lparr>statusCode = Some 200, error = None, totalTime = 250,
            timeToFirstByte = Some 100, timeToLastByte = Some 250\<rparr>] 1 1000 3000 =
     Inr \<lparr>successCount = 1, failedCount = 0, requestsPerSecond = Fin (- (1 / 2)),
       totalTimeStats = \<lparr>min_of = Fin (1 / 4), max_of = Fin (1 / 4), avg = Fin (1 / 4)\<rparr>,
       timeToFirstByteStats =
         \<lparr>min_of = Fin (3602879701896397 / 36028797018963968),
          max_of = Fin (3602879701896397 / 36028797018963968),
          avg = Fin (3602879701896397 / 36028797018963968)\<rparr>,
       timeToLastByteStats =
         \<lparr>min_of = Fin (1 / 4), max_of = Fin (1 / 4), avg = Fin (1 / 4)\<rparr>\<rparr>"
    unfolding summarize_cli_def Let_def rate
    by (simp add: totalTimes_def ttfbTimes_def ttlbTimes_def secs isSuccess_def
        calcStats_single [OF toDouble_quarter] calcStats_single [OF toDouble_tenth_again])
  with printed run show ?thesis by simp
qed

text \<open>
  Claim C9, amended. The command-line script sends one request with one worker down
  a path of its own: the prober is called directly and its outcome printed, without
  dispatch or aggregation. In src/index.ts the same configuration goes through
  \<^verbatim>\<open>runLoadTest\<close> like any other. Either way the outcome is the one the worker
  pool produces for that request: the pool with one request and one worker calls the
  prober once and holds exactly its outcome.
\<close>

theorem single_request_same_outcome:
  "main_cli maxArgs env 1 1 =
     (case makeRequest_cli (startTimes env 0) (transport env 0) of
        Resolved stat \<Rightarrow> Inr (Statistics stat)
      | Rejected err \<Rightarrow> Inr (Failure err)
      | Unsettled \<Rightarrow> Inl NeverCompletes) \<and>
   runLoadTest_cli maxArgs env 1 1 =
     (case makeRequest_cli (startTimes env 0) (transport env 0) of
        Resolved stat \<Rightarrow> summarize_cli maxArgs [stat] 1 (clockAtStart env) (clockAtEnd env)
      | Rejected message \<Rightarrow> Inl (RunRejected message)
      | Unsettled \<Rightarrow> Inl NeverCompletes) \<and>
   runLoadTest maxArgs env 1 1 =
     (case makeRequest (startTimes env 0) (transport env 0) of
        Resolved stat \<Rightarrow> summarize maxArgs [stat] 1 (clockAtStart env) (clockAtEnd env)
      | Rejected message \<Rightarrow> Inl (RunRejected message)
      | Unsettled \<Rightarrow> Inl NeverCompletes) \<and>
   dispatch probe 1 1 sched =
     (case probe 0 of
        Resolved stat \<Rightarrow>
          Inr \<lparr>requestSent = 1, stats = [stat], awaiting = [], issued = [(0, 0)]\<rparr>
      | Rejected message \<Rightarrow> Inl (RunRejected message)
      | Unsettled \<Rightarrow> Inl NeverCompletes)"
  by (simp add: main_cli_def runLoadTest_cli_def runLoadTest_def dispatch_single
      split: outcome.splits)

theorem single_request_same_outcome_witness:
  "main_cli 100000 mixed 1 1 =
     Inr (Statistics \<lparr>statusCode = Some 200, error = None, totalTime = 250,
            timeToFirstByte = Some 100, timeToLastByte = Some 250\<rparr>) \<and>
   dispatch (\<lambda>k. makeRequest_cli (startTimes mixed k) (transport mixed k)) 1 1 (schedule mixed) =
     Inr \<lparr>requestSent = 1,
       stats = [\<lparr>statusCode = Some 200, error = None, totalTime = 250,
                 timeToFirstByte = Some 100, timeToLastByte = Some 250\<rparr>],
       awaiting = [], issued = [(0, 0)]\<rparr> \<and>
   runLoadTest 100000 mixed 1 1 =
     summarize 100000 [\<lparr>statusCode = Some 200, error = None, totalTime = 250,
            timeToFirstByte = Some 100, timeToLastByte = Some 150\<rparr>] 1 1000 3000"
proof -
  have cli: "makeRequest_cli (startTimes mixed 0) (transport mixed 0) =
      Resolved \<lparr>statusCode = Some 200, error = None, totalTime = 250,
        timeToFirstByte = Some 100, timeToLastByte = Some 250\<rparr>"
    by (simp add: mixed_def onData_def whenTruthy_def orZero_def)
  have idx: "makeRequest (startTimes mixed 0) (transport mixed 0) =
      Resolved \<lparr>statusCode = Some 200, error = None, totalTime = 250,
        timeToFirstByte = Some 100, timeToLastByte = Some 150\<rparr>"
    by (simp add: mixed_def onData_def whenTruthy_def orZero_def)
  have clock: "clockAtStart mixed = 1000" "clockAtEnd mixed = 3000"
    by (simp_all add: mixed_def)
  from single_request_same_outcome [of 100000 mixed
      "\<lambda>k. makeRequest_cli (startTimes mixed k) (transport mixed k)" "schedule mixed"]
  show ?thesis by (simp add: cli idx clock)
qed


section \<open>Minimum, maximum and mean\<close>

text \<open>
  The statistics of three values of 100 ms, step by step in binary64: 0.1 is not
  representable, the third addition is a tie that rounds up, and the quotient rounds
  up again.
\<close>

lemma seconds_100: "seconds 100 = Fin (3602879701896397 / 36028797018963968)"
  by (simp add: seconds_def num_def toDouble_tenth)

lemma sum_step_1:
  "js_add (Fin 0) (Fin (3602879701896397 / 36028797018963968)) =
     Fin (3602879701896397 / 36028797018963968)"
  using toDouble_nearest [of "- 4" "3602879701896397 / 36028797018963968" 7205759403792794]
  by (simp add: pow2_def)

lemma sum_step_2:
  "js_add (Fin (3602879701896397 / 36028797018963968))
     (Fin (3602879701896397 / 36028797018963968)) =
     Fin (3602879701896397 / 18014398509481984)"
  using toDouble_nearest [of "- 3" "3602879701896397 / 18014398509481984" 7205759403792794]
  by (simp add: pow2_def)

lemma sum_step_3:
  "js_add (Fin (3602879701896397 / 18014398509481984))
     (Fin (3602879701896397 / 36028797018963968)) =
     Fin (1351079888211149 / 4503599627370496)"
  using toDouble_tie [of "- 2" "10808639105689191 / 36028797018963968" 5404319552844595]
  by (simp add: pow2_def)

lemma mean_step:
  "js_div (Fin (1351079888211149 / 4503599627370496)) (num 3) =
     Fin (7205759403792795 / 72057594037927936)"
  using toDouble_nearest [of "- 4" "1351079888211149 / 13510798882111488" 7205759403792795]
  by (simp add: pow2_def num_def)

lemma calcStats_three_tenths:
  "calcStats 100000 [seconds 100, seconds 100, seconds 100] =
     Inr \<lparr>min_of = Fin (3602879701896397 / 36028797018963968),
      max_of = Fin (3602879701896397 / 36028797018963968),
      avg = Fin (7205759403792795 / 72057594037927936)\<rparr>"
proof -
  let ?d = "Fin (3602879701896397 / 36028797018963968)"
  have mn: "Math_min [?d, ?d, ?d] = ?d" by (simp add: Math_min_def js_min2_def)
  have mx: "Math_max [?d, ?d, ?d] = ?d" by (simp add: Math_max_def js_max2_def)
  have total: "foldl js_add (Fin 0) [?d, ?d, ?d] = Fin (1351079888211149 / 4503599627370496)"
    by (simp only: foldl_Cons foldl_Nil sum_step_1 sum_step_2 sum_step_3)
  have len: "num (int (length [?d, ?d, ?d])) = num 3" by simp
  have within: "\<not> 100000 < length [?d, ?d, ?d]" by simp
  show ?thesis
    by (simp only: seconds_100 calcStats_def Let_def mn mx total len mean_step within if_False)
qed

lemma steady_rate: "js_div (num 3) (js_div (num (1300 - 1000)) (num 1000)) = Fin 10"
proof -
  have "toDouble (3 / 10) = Fin (5404319552844595 / 18014398509481984)"
    using toDouble_nearest [of "- 2" "3 / 10" 5404319552844595] by (simp add: pow2_def)
  moreover have "toDouble (3 / (5404319552844595 / 18014398509481984)) = Fin 10"
    using toDouble_nearest [of 3 "3 / (5404319552844595 / 18014398509481984)"
        5629499534213120]
    by (simp add: pow2_def)
  ultimately show ?thesis by (simp add: num_def)
qed

lemma steady_dispatch:
  "dispatch (\<lambda>k. makeRequest (startTimes steady k) (transport steady k)) 3 1 (schedule steady) =
     Inr \<lparr>requestSent = 3, stats = steady_stats, awaiting = [],
       issued = [(0, 0), (0, 1), (0, 2)]\<rparr>"
  by code_simp

text \<open>
  Claim C7, as stated, fails on src/index.ts: three requests that each take 100 ms
  give the minimum 0.1, the maximum 0.1 and the mean 0.10000000000000002, which is
  above the maximum.
\<close>

theorem mean_above_max_counterexample:
  "runLoadTest 100000 steady 3 1 =
     Inr \<lparr>successCount = 3, failedCount = 0, requestsPerSecond = Fin 10,
       totalTimeStats =
         \<lparr>min_of = Fin (3602879701896397 / 36028797018963968),
          max_of = Fin (3602879701896397 / 36028797018963968),
          avg = Fin (7205759403792795 / 72057594037927936)\<rparr>,
       timeToFirstByteStats = \<lparr>min_of = PInf, max_of = NInf, avg = NaN\<rparr>,
       timeToLastByteStats = \<lparr>min_of = PInf, max_of = NInf, avg = NaN\<rparr>\<rparr> \<and>
   \<not> js_le (Fin (7205759403792795 / 72057594037927936))
          (Fin (3602879701896397 / 36028797018963968))"
proof -
  have run: "runLoadTest 100000 steady 3 1 = summarize 100000 steady_stats 3 1000 1300"
    by (simp add: runLoadTest_def steady_dispatch) (simp add: steady_def)
  have total: "totalTimes steady_stats = [seconds 100, seconds 100, seconds 100]"
    and none: "ttfbTimes steady_stats = []" "ttlbTimes steady_stats = []"
    and counts: "int (length (filter isSuccess steady_stats)) = 3"
      "int (length steady_stats) = 3"
    by (simp_all add: totalTimes_def ttfbTimes_def ttlbTimes_def steady_stats_def
        isSuccess_def)
  have "summarize 100000 steady_stats 3 1000 1300 =
     Inr \<lparr>successCount = 3, failedCount = 0, requestsPerSecond = Fin 10,
       totalTimeStats =
         \<lparr>min_of = Fin (3602879701896397 / 36028797018963968),
          max_of = Fin (3602879701896397 / 36028797018963968),
          avg = Fin (7205759403792795 / 72057594037927936)\<rparr>,
       timeToFirstByteStats = \<lparr>min_of = PInf, max_of = NInf, avg = NaN\<rparr>,
       timeToLastByteStats = \<lparr>min_of = PInf, max_of = NInf, avg = NaN\<rparr>\<rparr>"
    unfolding summarize_def Let_def steady_rate total none counts calcStats_three_tenths
      calcStats_empty
    by simp
  with run show ?thesis by simp
qed

lemma foldl_min_Fin: "foldl js_min2 (Fin a) (map Fin qs) = Fin (Min (insert a (set qs)))"
proof (induction qs arbitrary: a)
  case Nil
  show ?case by simp
next
  case (Cons q qs)
  have "js_min2 (Fin a) (Fin q) = Fin (min a q)"
    by (simp add: js_min2_def min_def)
  moreover have "Min (insert (min a q) (set qs)) = Min (insert a (insert q (set qs)))"
    by (cases "set qs = {}") (simp_all add: min.assoc)
  ultimately show ?case by (simp add: Cons.IH)
qed

lemma foldl_max_Fin: "foldl js_max2 (Fin a) (map Fin qs) = Fin (Max (insert a (set qs)))"
proof (induction qs arbitrary: a)
  case Nil
  show ?case by simp
next
  case (Cons q qs)
  have "js_max2 (Fin a) (Fin q) = Fin (max a q)"
    by (simp add: js_max2_def max_def)
  moreover have "Max (insert (max a q) (set qs)) = Max (insert a (insert q (set qs)))"
    by (cases "set qs = {}") (simp_all add: max.assoc)
  ultimately show ?case by (simp add: Cons.IH)
qed

lemma Math_min_Fin:
  assumes "qs \<noteq> []"
  shows "Math_min (map Fin qs) = Fin (Min (set qs))"
proof -
  from assms obtain q rest where qs: "qs = q # rest" by (cases qs) auto
  have "js_min2 PInf (Fin q) = Fin q" by (simp add: js_min2_def)
  then show ?thesis by (simp add: Math_min_def qs foldl_min_Fin)
qed

lemma Math_max_Fin:
  assumes "qs \<noteq> []"
  shows "Math_max (map Fin qs) = Fin (Max (set qs))"
proof -
  from assms obtain q rest where qs: "qs = q # rest" by (cases qs) auto
  have "js_max2 NInf (Fin q) = Fin q" by (simp add: js_max2_def)
  then show ?thesis by (simp add: Math_max_def qs foldl_max_Fin)
qed

lemma sum_list_upper:
  fixes qs :: "rat list"
  assumes "\<forall>q \<in> set qs. q \<le> m"
  shows "sum_list qs \<le> of_nat (length qs) * m"
  using assms by (induction qs) (auto simp: algebra_simps)

lemma sum_list_lower:
  fixes qs :: "rat list"
  assumes "\<forall>q \<in> set qs. m \<le> q"
  shows "of_nat (length qs) * m \<le> sum_list qs"
  using assms by (induction qs) (auto simp: algebra_simps)

lemma exact_mean_between:
  fixes qs :: "rat list"
  assumes "qs \<noteq> []"
  shows "Min (set qs) \<le> sum_list qs / of_nat (length qs)"
    and "sum_list qs / of_nat (length qs) \<le> Max (set qs)"
proof -
  have len: "0 < (of_nat (length qs) :: rat)" using assms by simp
  have "of_nat (length qs) * Min (set qs) \<le> sum_list qs"
    by (rule sum_list_lower) simp
  then show "Min (set qs) \<le> sum_list qs / of_nat (length qs)"
    using len by (simp add: pos_le_divide_eq mult.commute)
  have "sum_list qs \<le> of_nat (length qs) * Max (set qs)"
    by (rule sum_list_upper) simp
  then show "sum_list qs / of_nat (length qs) \<le> Max (set qs)"
    using len by (simp add: pos_divide_le_eq mult.commute)
qed

lemma reported_only:
  "map (\<lambda>s. seconds (the (f s))) (filter (\<lambda>s. f s \<noteq> None) sts) =
     concat (map (\<lambda>s. case f s of None \<Rightarrow> [] | Some t \<Rightarrow> [seconds t]) sts)"
  by (induction sts) (auto split: option.splits)

lemma seconds_finite:
  assumes "0 \<le> t" and "t \<le> 2 ^ 53"
  shows "\<exists>r. seconds t = Fin r \<and> (r = 0 \<or> pow2 (- 10) \<le> r \<and> r \<le> pow2 54)"
proof (cases "t = 0")
  case True
  then show ?thesis by (simp add: seconds_def num_def toDouble_def)
next
  case False
  with assms have tr: "1 \<le> (of_int t :: rat)" "(of_int t :: rat) \<le> 2 ^ 53"
    by (simp_all add: of_int_le_iff [of t "2 ^ 53", where ?'a = rat, simplified] del: of_int_le_iff)
  have "pow2 (- 10) \<le> of_int t / 1000" using tr(1) by (simp add: pow2_def)
  moreover have "of_int t / 1000 \<le> pow2 53" using tr(2) by (simp add: pow2_def)
  ultimately obtain r where "toDouble (of_int t / 1000) = Fin r"
    and "pow2 (- 10) \<le> r" and "r \<le> pow2 (53 + 1)"
    using toDouble_range [of "- 10" "of_int t / 1000" 53] by auto
  then show ?thesis by (auto simp: seconds_def num_def)
qed

lemma sum_list_nonneg_rat:
  fixes qs :: "rat list"
  assumes "\<forall>q \<in> set qs. 0 \<le> q"
  shows "0 \<le> sum_list qs"
  using assms by (induction qs) simp_all

lemma foldl_add_rel:
  assumes "\<forall>q \<in> set qs. q = 0 \<or> pow2 (- 10) \<le> q"
    and "a = 0 \<or> pow2 (- 10) \<le> a"
    and "(a + sum_list qs) * (1 + unitRoundoff) ^ length qs \<le> pow2 1022"
  shows "\<exists>r. foldl js_add (Fin a) (map Fin qs) = Fin r \<and>
    (a + sum_list qs) * (1 - unitRoundoff) ^ length qs \<le> r \<and>
    r \<le> (a + sum_list qs) * (1 + unitRoundoff) ^ length qs \<and>
    (r = 0 \<or> pow2 (- 10) \<le> r)"
  using assms
proof (induction qs arbitrary: a)
  case Nil
  then show ?case by simp
next
  case (Cons q rest)
  let ?u = unitRoundoff
  let ?k = "length rest"
  have p: "0 < pow2 (- 10)" by (rule pow2_pos)
  have u: "0 < ?u" "?u < 1" by (rule unitRoundoff_bounds)+
  from Cons.prems(1) have q: "q = 0 \<or> pow2 (- 10) \<le> q"
    and rest: "\<forall>q \<in> set rest. q = 0 \<or> pow2 (- 10) \<le> q" by simp_all
  from q p have q0: "0 \<le> q" by auto
  from Cons.prems(2) p have a0: "0 \<le> a" by auto
  from rest p have "\<forall>q \<in> set rest. 0 \<le> q" by auto
  then have s0: "0 \<le> sum_list rest" by (rule sum_list_nonneg_rat)
  have up1: "1 \<le> (1 + ?u) ^ ?k" using u by (intro one_le_power) simp
  have up0: "0 \<le> (1 + ?u) ^ ?k" using up1 by simp
  have dn0: "0 \<le> (1 - ?u) ^ ?k" using u by (intro zero_le_power) simp
  have big: "(a + q + sum_list rest) * ((1 + ?u) * (1 + ?u) ^ ?k) \<le> pow2 1022"
    using Cons.prems(3) by (simp add: algebra_simps)
  have "a + q \<le> (a + q + sum_list rest) * 1" using s0 by simp
  also have "\<dots> \<le> (a + q + sum_list rest) * ((1 + ?u) * (1 + ?u) ^ ?k)"
  proof (rule mult_left_mono)
    have "1 * 1 \<le> (1 + ?u) * (1 + ?u) ^ ?k"
      using u up1 by (intro mult_mono) simp_all
    then show "1 \<le> (1 + ?u) * (1 + ?u) ^ ?k" by simp
    show "0 \<le> a + q + sum_list rest" using a0 q0 s0 by simp
  qed
  also note big
  finally have hi: "a + q \<le> pow2 1022" .
  from js_add_rel [OF Cons.prems(2) q hi] obtain a' where
    step: "js_add (Fin a) (Fin q) = Fin a'"
    and lo': "(a + q) * (1 - ?u) \<le> a'" and hi': "a' \<le> (a + q) * (1 + ?u)"
    and a': "a' = 0 \<or> pow2 (- 10) \<le> a'" by blast
  have upper: "a' + sum_list rest \<le> (a + q + sum_list rest) * (1 + ?u)"
  proof -
    have "sum_list rest \<le> sum_list rest * (1 + ?u)"
      using s0 u by (simp add: algebra_simps)
    with hi' show ?thesis by (simp add: algebra_simps)
  qed
  have lower: "(a + q + sum_list rest) * (1 - ?u) \<le> a' + sum_list rest"
  proof -
    have "sum_list rest * (1 - ?u) \<le> sum_list rest"
      using s0 u by (simp add: algebra_simps)
    with lo' show ?thesis by (simp add: algebra_simps)
  qed
  have "(a' + sum_list rest) * (1 + ?u) ^ ?k
      \<le> ((a + q + sum_list rest) * (1 + ?u)) * (1 + ?u) ^ ?k"
    using upper up0 by (rule mult_right_mono)
  also have "\<dots> = (a + q + sum_list rest) * ((1 + ?u) * (1 + ?u) ^ ?k)" by simp
  finally have up': "(a' + sum_list rest) * (1 + ?u) ^ ?k
      \<le> (a + q + sum_list rest) * ((1 + ?u) * (1 + ?u) ^ ?k)" .
  with big have "(a' + sum_list rest) * (1 + ?u) ^ ?k \<le> pow2 1022" by simp
  from Cons.IH [OF rest a' this] obtain r where
    r: "foldl js_add (Fin a') (map Fin rest) = Fin r"
    and rlo: "(a' + sum_list rest) * (1 - ?u) ^ ?k \<le> r"
    and rhi: "r \<le> (a' + sum_list rest) * (1 + ?u) ^ ?k"
    and r0: "r = 0 \<or> pow2 (- 10) \<le> r" by blast
  have "((a + q + sum_list rest) * (1 - ?u)) * (1 - ?u) ^ ?k
      \<le> (a' + sum_list rest) * (1 - ?u) ^ ?k"
    using lower dn0 by (rule mult_right_mono)
  with rlo have "(a + q + sum_list rest) * ((1 - ?u) * (1 - ?u) ^ ?k) \<le> r"
    by (simp add: mult.assoc)
  moreover from rhi up' have "r \<le> (a + q + sum_list rest) * ((1 + ?u) * (1 + ?u) ^ ?k)"
    by simp
  ultimately show ?case using r r0 step by (simp add: add.assoc)
qed


lemma mean_rel:
  assumes ne: "qs \<noteq> []"
    and vals: "\<forall>q \<in> set qs. q = 0 \<or> (pow2 (- 10) \<le> q \<and> q \<le> pow2 54)"
    and len: "length qs \<le> 2 ^ 52"
  shows "\<exists>m. js_div (foldl js_add (Fin 0) (map Fin qs)) (num (int (length qs))) = Fin m \<and>
    Min (set qs) * (1 - unitRoundoff) ^ (length qs + 1) \<le> m \<and>
    m \<le> Max (set qs) * (1 + unitRoundoff) ^ (length qs + 1)"
proof -
  let ?u = unitRoundoff
  let ?n = "length qs"
  let ?N = "of_nat (length qs) :: rat"
  have p: "0 < pow2 (- 10)" by (rule pow2_pos)
  have u: "0 < ?u" "?u < 1" by (rule unitRoundoff_bounds)+
  have n: "0 < ?N" using ne by simp
  have n1: "1 \<le> ?N" using ne by (cases qs) simp_all
  have nhi: "?N \<le> 2 ^ 52"
  proof -
    have "(of_nat ?n :: rat) \<le> of_nat (2 ^ 52)" using len by (simp only: of_nat_le_iff)
    then show ?thesis by simp
  qed
  from vals p have nonneg: "\<forall>q \<in> set qs. 0 \<le> q" by auto
  from vals have small: "\<forall>q \<in> set qs. q = 0 \<or> pow2 (- 10) \<le> q" by auto
  from vals have "\<forall>q \<in> set qs. q \<le> pow2 54" using pow2_pos [of 54] by auto
  then have sum_hi: "sum_list qs \<le> ?N * pow2 54" by (rule sum_list_upper)
  have s0: "0 \<le> sum_list qs" using nonneg by (rule sum_list_nonneg_rat)
  have mn0: "0 \<le> Min (set qs)" using nonneg ne by simp
  have "Max (set qs) \<in> set qs" using ne by (intro Max_in) simp_all
  with nonneg have mx0: "0 \<le> Max (set qs)" by blast
  have up1: "1 \<le> (1 + ?u) ^ ?n" using u by (intro one_le_power) simp
  have up0: "0 \<le> (1 + ?u) ^ ?n" using up1 by simp
  have dn0: "0 \<le> (1 - ?u) ^ ?n" using u by (intro zero_le_power) simp
  have "2 * ?N * ?u \<le> 1" using nhi by (simp add: unitRoundoff_def)
  with u(1) have "(1 + ?u) ^ ?n \<le> 1 + 2 * ?N * ?u"
    by (intro bernoulli_upper) simp_all
  also have "\<dots> \<le> 2" using \<open>2 * ?N * ?u \<le> 1\<close> by simp
  finally have up2: "(1 + ?u) ^ ?n \<le> 2" .
  have "sum_list qs * (1 + ?u) ^ ?n \<le> (?N * pow2 54) * 2"
    using sum_hi up2 s0 up0 by (intro mult_mono) simp_all
  also have "\<dots> \<le> (2 ^ 52 * pow2 54) * 2"
    using nhi pow2_pos [of 54] by simp
  also have "\<dots> = pow2 107" by (simp add: pow2_def)
  also have "\<dots> \<le> pow2 1022" by (intro pow2_le) simp
  finally have big: "(0 + sum_list qs) * (1 + ?u) ^ ?n \<le> pow2 1022" by simp
  from foldl_add_rel [OF small _ big] obtain r where
    total: "foldl js_add (Fin 0) (map Fin qs) = Fin r"
    and rlo: "sum_list qs * (1 - ?u) ^ ?n \<le> r"
    and rhi: "r \<le> sum_list qs * (1 + ?u) ^ ?n"
    and r0: "r = 0 \<or> pow2 (- 10) \<le> r" by auto
  have mean: "js_div (foldl js_add (Fin 0) (map Fin qs)) (num (int (length qs))) =
      toDouble (r / ?N)"
    using n by (simp add: total num_def)
  have exact_lo: "Min (set qs) \<le> sum_list qs / ?N"
    and exact_hi: "sum_list qs / ?N \<le> Max (set qs)"
    using exact_mean_between [OF ne] by simp_all
  have xhi: "r / ?N \<le> Max (set qs) * (1 + ?u) ^ ?n"
  proof -
    have "r / ?N \<le> (sum_list qs * (1 + ?u) ^ ?n) / ?N"
      using rhi n by (simp add: divide_right_mono)
    also have "\<dots> = (sum_list qs / ?N) * (1 + ?u) ^ ?n" by simp
    also have "\<dots> \<le> Max (set qs) * (1 + ?u) ^ ?n"
      using exact_hi up0 by (rule mult_right_mono)
    finally show ?thesis .
  qed
  have xlo: "Min (set qs) * (1 - ?u) ^ ?n \<le> r / ?N"
  proof -
    have "Min (set qs) * (1 - ?u) ^ ?n \<le> (sum_list qs / ?N) * (1 - ?u) ^ ?n"
      using exact_lo dn0 by (rule mult_right_mono)
    also have "\<dots> = (sum_list qs * (1 - ?u) ^ ?n) / ?N" by simp
    also have "\<dots> \<le> r / ?N" using rlo n by (simp add: divide_right_mono)
    finally show ?thesis .
  qed
  show ?thesis
  proof (cases "r = 0")
    case True
    have "Min (set qs) * (1 - ?u) ^ ?n \<le> 0" using xlo True by simp
    then have "(Min (set qs) * (1 - ?u) ^ ?n) * (1 - ?u) \<le> 0 * (1 - ?u)"
      using u by (intro mult_right_mono) simp_all
    then have lo: "Min (set qs) * (1 - ?u) ^ (?n + 1) \<le> 0" by (simp add: mult_ac)
    have "0 \<le> Max (set qs) * (1 + ?u) ^ (?n + 1)"
      using mx0 u by (intro mult_nonneg_nonneg zero_le_power) simp_all
    with lo show ?thesis using True by (simp add: mean toDouble_def)
  next
    case False
    with r0 have rl: "pow2 (- 10) \<le> r" by simp
    have "pow2 (- 1022) * ?N \<le> pow2 (- 1022) * 2 ^ 52"
      using nhi pow2_pos [of "- 1022"] by simp
    also have "\<dots> = pow2 (- 1022) * pow2 52" by (simp add: pow2_def)
    also have "\<dots> = pow2 (- 970)" unfolding pow2_add [symmetric] by simp
    also have "\<dots> \<le> pow2 (- 10)" by (intro pow2_le) simp
    also note rl
    finally have lo: "pow2 (- 1022) \<le> r / ?N" using n by (simp add: pos_le_divide_eq)
    have rpos: "0 \<le> r" using rl p by simp
    have "r * 1 \<le> r * ?N" using n1 rpos by (rule mult_left_mono)
    then have "r / ?N \<le> r" using n by (simp add: pos_divide_le_eq)
    also have "\<dots> \<le> sum_list qs * (1 + ?u) ^ ?n" using rhi by simp
    also have "\<dots> \<le> pow2 1022" using big by simp
    finally have hi: "r / ?N \<le> pow2 1022" .
    from toDouble_rel [OF lo hi] obtain m where
      m: "toDouble (r / ?N) = Fin m" and mlo: "(r / ?N) * (1 - ?u) \<le> m"
      and mhi: "m \<le> (r / ?N) * (1 + ?u)" by blast
    have "(Min (set qs) * (1 - ?u) ^ ?n) * (1 - ?u) \<le> (r / ?N) * (1 - ?u)"
      using xlo u by (intro mult_right_mono) simp_all
    with mlo have "Min (set qs) * (1 - ?u) ^ (?n + 1) \<le> m" by (simp add: mult_ac)
    moreover have "(r / ?N) * (1 + ?u) \<le> (Max (set qs) * (1 + ?u) ^ ?n) * (1 + ?u)"
      using xhi u by (intro mult_right_mono) simp_all
    with mhi have "m \<le> Max (set qs) * (1 + ?u) ^ (?n + 1)" by (simp add: mult_ac)
    ultimately show ?thesis using m by (simp add: mean)
  qed
qed

text \<open>
  Claim C7, amended. For a non-empty list of finite values, of a length within the
  number of arguments the engine accepts, \<^verbatim>\<open>calcStats\<close> returns the least value
  as minimum and the greatest as maximum, so the minimum is at most the maximum.
  The mean is the rounded sum divided by the count, rounded again. It lies between
  the minimum and the maximum whenever it equals the exact mean of the values; in
  general, for \<open>n\<close> values that are 0 or between \<open>2^-10\<close> and \<open>2^54\<close>, with
  \<open>n\<close> within that number of arguments and at most \<open>2^52\<close>, it lies between the
  minimum times \<open>(1 - 2^-53)^(n+1)\<close> and the maximum times \<open>(1 + 2^-53)^(n+1)\<close>.
  On a longer list \<^verbatim>\<open>calcStats\<close> throws \<^verbatim>\<open>RangeError\<close> and returns no statistics.
  A time between 0 and \<open>2^53\<close> ms is, in seconds, such a value. In a summary that
  is returned, the group of the total time is computed over all outcomes, and the
  group of each byte time over the outcomes that report it: an outcome without that
  time adds no value to the list.
\<close>

theorem calcStats_bounds:
  assumes "qs \<noteq> []" and "length qs \<le> maxArgs"
  shows "(\<exists>g. calcStats maxArgs (map Fin qs) = Inr g \<and>
       min_of g = Fin (Min (set qs)) \<and>
       max_of g = Fin (Max (set qs)) \<and>
       js_le (min_of g) (max_of g) \<and>
       (avg g = Fin (sum_list qs / of_nat (length qs)) \<longrightarrow>
          js_le (min_of g) (avg g) \<and> js_le (avg g) (max_of g)) \<and>
       ((\<forall>q \<in> set qs. q = 0 \<or> (pow2 (- 10) \<le> q \<and> q \<le> pow2 54)) \<and>
        length qs \<le> 2 ^ 52 \<longrightarrow>
          (\<exists>m. avg g = Fin m \<and>
             Min (set qs) * (1 - unitRoundoff) ^ (length qs + 1) \<le> m \<and>
             m \<le> Max (set qs) * (1 + unitRoundoff) ^ (length qs + 1)))) \<and>
    (maxArgs < length longer \<longrightarrow> calcStats maxArgs longer = Inl RangeError) \<and>
    (0 \<le> t \<and> t \<le> 2 ^ 53 \<longrightarrow>
       (\<exists>r. seconds t = Fin r \<and> (r = 0 \<or> pow2 (- 10) \<le> r \<and> r \<le> pow2 54))) \<and>
    (summarize maxArgs sts numRequests testStartTime testEndTime = Inr summary \<longrightarrow>
       calcStats maxArgs (map (\<lambda>s. seconds (totalTime s)) sts) =
         Inr (totalTimeStats summary) \<and>
       calcStats maxArgs
         (concat (map (\<lambda>s. case timeToFirstByte s of None \<Rightarrow> [] | Some t \<Rightarrow> [seconds t]) sts)) =
         Inr (timeToFirstByteStats summary) \<and>
       calcStats maxArgs
         (concat (map (\<lambda>s. case timeToLastByte s of None \<Rightarrow> [] | Some t \<Rightarrow> [seconds t]) sts)) =
         Inr (timeToLastByteStats summary))"
proof -
  define g where "g = \<lparr>min_of = Math_min (map Fin qs), max_of = Math_max (map Fin qs),
    avg = js_div (foldl js_add (Fin 0) (map Fin qs)) (num (int (length (map Fin qs))))\<rparr>"
  have ret: "calcStats maxArgs (map Fin qs) = Inr g"
    using assms(2) by (simp add: calcStats_returns g_def)
  have mn: "min_of g = Fin (Min (set qs))"
    using assms(1) by (simp add: g_def Math_min_Fin)
  have mx: "max_of g = Fin (Max (set qs))"
    using assms(1) by (simp add: g_def Math_max_Fin)
  have av: "avg g = js_div (foldl js_add (Fin 0) (map Fin qs)) (num (int (length qs)))"
    by (simp add: g_def)
  have ord: "Min (set qs) \<le> Max (set qs)" using assms(1) by simp
  then have le: "js_le (min_of g) (max_of g)" by (simp add: mn mx)
  have exact: "avg g = Fin (sum_list qs / of_nat (length qs)) \<longrightarrow>
       js_le (min_of g) (avg g) \<and> js_le (avg g) (max_of g)"
    using exact_mean_between [OF assms(1)] by (simp add: mn mx)
  have rounded: "(\<forall>q \<in> set qs. q = 0 \<or> (pow2 (- 10) \<le> q \<and> q \<le> pow2 54)) \<and>
      length qs \<le> 2 ^ 52 \<longrightarrow>
       (\<exists>m. avg g = Fin m \<and>
          Min (set qs) * (1 - unitRoundoff) ^ (length qs + 1) \<le> m \<and>
          m \<le> Max (set qs) * (1 + unitRoundoff) ^ (length qs + 1))"
    unfolding av using mean_rel [OF assms(1)] by blast
  from ret mn mx le exact rounded
  have stats: "\<exists>g. calcStats maxArgs (map Fin qs) = Inr g \<and>
       min_of g = Fin (Min (set qs)) \<and>
       max_of g = Fin (Max (set qs)) \<and>
       js_le (min_of g) (max_of g) \<and>
       (avg g = Fin (sum_list qs / of_nat (length qs)) \<longrightarrow>
          js_le (min_of g) (avg g) \<and> js_le (avg g) (max_of g)) \<and>
       ((\<forall>q \<in> set qs. q = 0 \<or> (pow2 (- 10) \<le> q \<and> q \<le> pow2 54)) \<and>
        length qs \<le> 2 ^ 52 \<longrightarrow>
          (\<exists>m. avg g = Fin m \<and>
             Min (set qs) * (1 - unitRoundoff) ^ (length qs + 1) \<le> m \<and>
             m \<le> Max (set qs) * (1 + unitRoundoff) ^ (length qs + 1)))"
    by (intro exI [of _ g] conjI)
  have beyond: "maxArgs < length longer \<longrightarrow> calcStats maxArgs longer = Inl RangeError"
    by (simp add: calcStats_def)
  have secs: "0 \<le> t \<and> t \<le> 2 ^ 53 \<longrightarrow>
       (\<exists>r. seconds t = Fin r \<and> (r = 0 \<or> pow2 (- 10) \<le> r \<and> r \<le> pow2 54))"
    using seconds_finite [of t] by blast
  have first_byte: "ttfbTimes sts =
      concat (map (\<lambda>s. case timeToFirstByte s of None \<Rightarrow> [] | Some t \<Rightarrow> [seconds t]) sts)"
    unfolding ttfbTimes_def by (rule reported_only)
  have last_byte: "ttlbTimes sts =
      concat (map (\<lambda>s. case timeToLastByte s of None \<Rightarrow> [] | Some t \<Rightarrow> [seconds t]) sts)"
    unfolding ttlbTimes_def by (rule reported_only)
  have groups: "summarize maxArgs sts numRequests testStartTime testEndTime = Inr summary \<longrightarrow>
       calcStats maxArgs (map (\<lambda>s. seconds (totalTime s)) sts) =
         Inr (totalTimeStats summary) \<and>
       calcStats maxArgs
         (concat (map (\<lambda>s. case timeToFirstByte s of None \<Rightarrow> [] | Some t \<Rightarrow> [seconds t]) sts)) =
         Inr (timeToFirstByteStats summary) \<and>
       calcStats maxArgs
         (concat (map (\<lambda>s. case timeToLastByte s of None \<Rightarrow> [] | Some t \<Rightarrow> [seconds t]) sts)) =
         Inr (timeToLastByteStats summary)"
  proof
    assume sm: "summarize maxArgs sts numRequests testStartTime testEndTime = Inr summary"
    from summarize_fields(5) [OF sm] summarize_fields(6) [OF sm] summarize_fields(7) [OF sm]
    show "calcStats maxArgs (map (\<lambda>s. seconds (totalTime s)) sts) =
         Inr (totalTimeStats summary) \<and>
       calcStats maxArgs
         (concat (map (\<lambda>s. case timeToFirstByte s of None \<Rightarrow> [] | Some t \<Rightarrow> [seconds t]) sts)) =
         Inr (timeToFirstByteStats summary) \<and>
       calcStats maxArgs
         (concat (map (\<lambda>s. case timeToLastByte s of None \<Rightarrow> [] | Some t \<Rightarrow> [seconds t]) sts)) =
         Inr (timeToLastByteStats summary)"
      by (simp only: totalTimes_def first_byte last_byte simp_thms)
  qed
  show ?thesis by (intro conjI, rule stats, rule beyond, rule secs, rule groups)
qed

lemma quarter_half_mean:
  "js_div (foldl js_add (Fin 0) [Fin (1 / 4), Fin (1 / 2)]) (num 2) = Fin (3 / 8)"
proof -
  have s1: "js_add (Fin 0) (Fin (1 / 4)) = Fin (1 / 4)"
    using toDouble_nearest [of "- 2" "1 / 4" "2 ^ 52"] by (simp add: pow2_def)
  have s2: "js_add (Fin (1 / 4)) (Fin (1 / 2)) = Fin (3 / 4)"
    using toDouble_nearest [of "- 1" "3 / 4" "3 * 2 ^ 51"] by (simp add: pow2_def)
  have q: "js_div (Fin (3 / 4)) (num 2) = Fin (3 / 8)"
    using toDouble_nearest [of "- 2" "3 / 8" "3 * 2 ^ 51"] by (simp add: pow2_def num_def)
  have total: "foldl js_add (Fin 0) [Fin (1 / 4), Fin (1 / 2)] = Fin (3 / 4)"
    by (simp only: foldl_Cons foldl_Nil s1 s2)
  show ?thesis by (simp only: total q)
qed

theorem calcStats_bounds_witness:
  "[1 / 4, 1 / 2 :: rat] \<noteq> [] \<and> length [1 / 4, 1 / 2 :: rat] \<le> 100000 \<and>
   calcStats 100000 (map Fin [1 / 4, 1 / 2]) =
     Inr \<lparr>min_of = Fin (1 / 4), max_of = Fin (1 / 2), avg = Fin (3 / 8)\<rparr> \<and>
   Fin (3 / 8) = Fin (sum_list [1 / 4, 1 / 2] / of_nat (length [1 / 4, 1 / 2 :: rat])) \<and>
   js_le (Fin (1 / 4)) (Fin (3 / 8)) \<and> js_le (Fin (3 / 8)) (Fin (1 / 2)) \<and>
   length [1 / 4, 1 / 2 :: rat] \<le> 2 ^ 52 \<and>
   Min (set [1 / 4, 1 / 2]) * (1 - unitRoundoff) ^ (length [1 / 4, 1 / 2 :: rat] + 1)
     \<le> (3 / 8 :: rat) \<and>
   (3 / 8 :: rat)
     \<le> Max (set [1 / 4, 1 / 2]) * (1 + unitRoundoff) ^ (length [1 / 4, 1 / 2 :: rat] + 1) \<and>
   100000 < length (replicate 100001 (Fin 0)) \<and>
   calcStats 100000 (replicate 100001 (Fin 0)) = Inl RangeError \<and>
   (0::int) \<le> 250 \<and> (250::int) \<le> 2 ^ 53 \<and>
   (\<exists>r. seconds 250 = Fin r \<and> (r = 0 \<or> pow2 (- 10) \<le> r \<and> r \<le> pow2 54)) \<and>
   (\<exists>summary. summarize 100000 steady_stats 3 1000 1300 = Inr summary \<and>
      calcStats 100000 (map (\<lambda>s. seconds (totalTime s)) steady_stats) =
        Inr (totalTimeStats summary) \<and>
      calcStats 100000 [] = Inr (timeToFirstByteStats summary) \<and>
      calcStats 100000 [] = Inr (timeToLastByteStats summary))"
proof -
  have ne: "[1 / 4, 1 / 2 :: rat] \<noteq> []" and within: "length [1 / 4, 1 / 2 :: rat] \<le> 100000"
    by simp_all
  have range: "(\<forall>q \<in> set [1 / 4, 1 / 2 :: rat]. q = 0 \<or> (pow2 (- 10) \<le> q \<and> q \<le> pow2 54)) \<and>
      length [1 / 4, 1 / 2 :: rat] \<le> 2 ^ 52"
    by (simp add: pow2_def)
  have time: "(0::int) \<le> 250 \<and> (250::int) \<le> 2 ^ 53" by simp
  have long: "100000 < length (replicate 100001 (Fin 0))" by simp
  have "\<exists>summary. summarize 100000 steady_stats 3 1000 1300 = Inr summary"
    by (rule summarize_completes) (simp add: steady_stats_def)
  then obtain summary where sm: "summarize 100000 steady_stats 3 1000 1300 = Inr summary" ..
  note b = calcStats_bounds [OF ne within, where t = 250
      and longer = "replicate 100001 (Fin 0)" and sts = steady_stats and numRequests = 3
      and testStartTime = 1000 and testEndTime = 1300 and summary = summary]
  have computed: "calcStats 100000 (map Fin [1 / 4, 1 / 2]) =
     Inr \<lparr>min_of = Fin (1 / 4), max_of = Fin (1 / 2), avg = Fin (3 / 8)\<rparr>"
    using quarter_half_mean
    by (simp add: calcStats_def Let_def Math_min_def Math_max_def js_min2_def js_max2_def)
  from b [THEN conjunct1] range computed
  have bounds: "Min (set [1 / 4, 1 / 2]) * (1 - unitRoundoff) ^ (length [1 / 4, 1 / 2 :: rat] + 1)
       \<le> (3 / 8 :: rat) \<and>
     (3 / 8 :: rat)
       \<le> Max (set [1 / 4, 1 / 2]) * (1 + unitRoundoff) ^ (length [1 / 4, 1 / 2 :: rat] + 1)"
    and order: "js_le (Fin (1 / 4)) (Fin (3 / 8)) \<and> js_le (Fin (3 / 8)) (Fin (1 / 2))"
    by auto
  from b long have thrown: "calcStats 100000 (replicate 100001 (Fin 0)) = Inl RangeError"
    by blast
  from b time
  have secs: "\<exists>r. seconds 250 = Fin r \<and> (r = 0 \<or> pow2 (- 10) \<le> r \<and> r \<le> pow2 54)"
    by blast
  have none:
    "concat (map (\<lambda>s. case timeToFirstByte s of None \<Rightarrow> [] | Some t \<Rightarrow> [seconds t])
       steady_stats) = []"
    "concat (map (\<lambda>s. case timeToLastByte s of None \<Rightarrow> [] | Some t \<Rightarrow> [seconds t])
       steady_stats) = []"
    by (simp_all add: steady_stats_def)
  from b [THEN conjunct2, THEN conjunct2, THEN conjunct2, unfolded none] sm
  have groups: "calcStats 100000 (map (\<lambda>s. seconds (totalTime s)) steady_stats) =
        Inr (totalTimeStats summary) \<and>
      calcStats 100000 [] = Inr (timeToFirstByteStats summary) \<and>
      calcStats 100000 [] = Inr (timeToLastByteStats summary)"
    by (rule mp)
  have exact: "Fin (3 / 8) =
      Fin (sum_list [1 / 4, 1 / 2] / of_nat (length [1 / 4, 1 / 2 :: rat]))"
    by simp
  from ne within computed exact order range bounds long thrown time secs sm groups
  show ?thesis by blast
qed

end
